theory Spec2Isabelle
  imports Complex_Main "HOL-Library.Char_ord" "HOL-Library.List_Lexorder"
    "HOL-Library.Product_Lexorder"
begin

section \<open>Data model of \<^verbatim>\<open>pytket/extensions/pyquil/backends/forest.py\<close>\<close>

text \<open>
  The module defines two backends over a common base class: \<^verbatim>\<open>ForestBackend\<close>
  (shot based, persistent handles) and \<^verbatim>\<open>ForestStateBackend\<close> (state vector).
  Exceptions are values of the type \<open>error\<close>; a method that can raise returns
  \<open>error + result\<close>, and a method that mutates the backend returns the new backend
  next to its result. A Python \<^verbatim>\<open>int\<close> is an \<open>int\<close>; an unsigned register
  index is a \<open>nat\<close>.
\<close>

subsection \<open>Unit identifiers, operations, circuits\<close>

text \<open>A qubit or a bit is a register name and an index tuple (\<^verbatim>\<open>q.reg_name\<close>,
  \<^verbatim>\<open>q.index\<close>).\<close>

record UnitID =
  reg_name :: string
  index :: "nat list"

type_synonym Qubit = UnitID
type_synonym Bit = UnitID

text \<open>The operation types that the module names in the code of the two backends'
  methods; every other operation type is \<open>OtherOp\<close> with its name.\<close>

datatype OpType = CZ | Rx | Rz | Measure | Barrier | ISWAP | OtherOp string

record Command =
  op_type :: OpType
  args :: "UnitID list"

text \<open>The global phase of a circuit is a number (in half turns) or an expression with
  free symbols, for which \<^verbatim>\<open>float(circuit.phase)\<close> raises.\<close>

datatype Phase = Numeric real | Symbolic string

record Circuit =
  qubits :: "Qubit list"
  bits :: "Bit list"
  commands :: "Command list"
  phase :: Phase
  implicit_qubit_permutation :: "(Qubit \<times> Qubit) list"

definition n_gates_of_type :: "Circuit \<Rightarrow> OpType \<Rightarrow> nat" where
  "n_gates_of_type c t = length (filter (\<lambda>cmd. op_type cmd = t) (commands c))"

subsection \<open>Handles, statuses, results, errors\<close>

text \<open>\<^verbatim>\<open>_result_id_type\<close> of \<^verbatim>\<open>ForestBackend\<close> is \<^verbatim>\<open>(int, str)\<close>: the integer
  of a fresh UUID and the JSON text of the classical postprocessing circuit. That of
  \<^verbatim>\<open>ForestStateBackend\<close> is \<^verbatim>\<open>(int,)\<close>.\<close>

datatype ResultHandle = ResultHandle int string

datatype StateHandle = StateHandle int

datatype StatusEnum = COMPLETED | RUNNING | SUBMITTED

text \<open>A \<^verbatim>\<open>BackendResult\<close> is built with keyword arguments; the ones that a call leaves
  out are \<open>None\<close>. The shots table \<^verbatim>\<open>OutcomeArray.from_readouts(rows)\<close> is kept as
  its list of readout rows.\<close>

record BackendResult =
  shots :: "int list list option"
  ppcirc :: "Circuit option"
  q_bits :: "Qubit list option"
  state :: "complex list option"

datatype 'h error =
    PyQuilJobStatusUnavailable
  | CircuitNotRunError 'h
  | CircuitNotValidError
  | ValueError string
  | AssertionError
  | IndexError
  | KeyError

section \<open>Compilation passes\<close>

text \<open>\<^verbatim>\<open>BackendInfo\<close>, as far as \<^verbatim>\<open>default_compilation_pass\<close> reads it. The
  architecture and the two tables of averaged gate errors come from the device's
  characterisation; their types are left open.\<close>

record ('a, 'n, 'e) BackendInfo =
  architecture :: 'a
  averaged_node_gate_errors :: 'n
  averaged_edge_gate_errors :: 'e

datatype ('a, 'n, 'e) Placement = NoiseAwarePlacement 'a 'n 'e

datatype ('a, 'n, 'e) BasePass =
    DecomposeBoxes
  | FlattenRegisters
  | SynthesiseTket
  | FullPeepholeOptimise
  | CXMappingPass 'a "('a, 'n, 'e) Placement" (directed_cx: bool) (delay_measures: bool)
  | NaivePlacementPass 'a
  | KAKDecomposition (kak_allow_swaps: bool)
  | CliffordSimp (clifford_allow_swaps: bool)
  | AutoRebase "OpType set"
  | EulerAngleReduction OpType OpType
  | SequencePass "('a, 'n, 'e) BasePass list"

text \<open>\<^verbatim>\<open>rebase_pass\<close> is the same in both classes:
  \<^verbatim>\<open>AutoRebase({OpType.CZ, OpType.Rz, OpType.Rx})\<close>.\<close>

definition rebase_pass :: "('a, 'n, 'e) BasePass" where
  "rebase_pass = AutoRebase {CZ, Rz, Rx}"

text \<open>\<^verbatim>\<open>ForestBackend.default_compilation_pass\<close>. The \<^verbatim>\<open>assert\<close> comes first; the
  pass list is then appended to in the order of the source.\<close>

definition default_compilation_pass ::
  "('a, 'n, 'e) BackendInfo \<Rightarrow> int \<Rightarrow> ResultHandle error + ('a, 'n, 'e) BasePass" where
  "default_compilation_pass info optimisation_level =
    (if \<not> (0 \<le> optimisation_level \<and> optimisation_level < 3) then Inl AssertionError
     else Inr (SequencePass (
       [DecomposeBoxes, FlattenRegisters]
       @ (if optimisation_level = 1 then [SynthesiseTket]
          else if optimisation_level = 2 then [FullPeepholeOptimise] else [])
       @ [CXMappingPass (architecture info)
            (NoiseAwarePlacement (architecture info)
               (averaged_node_gate_errors info) (averaged_edge_gate_errors info))
            False True]
       @ [NaivePlacementPass (architecture info)]
       @ (if optimisation_level = 2 then [KAKDecomposition False, CliffordSimp False] else [])
       @ (if optimisation_level > 0 then [SynthesiseTket] else [])
       @ [rebase_pass]
       @ (if optimisation_level > 0 then [EulerAngleReduction Rx Rz] else []))))"

text \<open>\<^verbatim>\<open>ForestStateBackend.default_compilation_pass\<close>: no routing, since the
  simulator has no connectivity constraint.\<close>

definition state_default_compilation_pass ::
  "int \<Rightarrow> StateHandle error + ('a, 'n, 'e) BasePass" where
  "state_default_compilation_pass optimisation_level =
    (if \<not> (0 \<le> optimisation_level \<and> optimisation_level < 3) then Inl AssertionError
     else Inr (SequencePass (
       [DecomposeBoxes, FlattenRegisters]
       @ (if optimisation_level = 1 then [SynthesiseTket]
          else if optimisation_level = 2 then [FullPeepholeOptimise] else [])
       @ [rebase_pass]
       @ (if optimisation_level > 0 then [EulerAngleReduction Rx Rz] else []))))"

text \<open>The routing pass of a pipeline is its \<^verbatim>\<open>CXMappingPass\<close>; \<open>routing_placements\<close>
  lists, for the routing passes of a compiled pipeline in order, the kind of placement
  each was built with.\<close>

datatype PlacementStrategy = NaiveStrategy | NoiseAwareStrategy

fun routing_placement :: "('a, 'n, 'e) BasePass \<Rightarrow> PlacementStrategy option" where
  "routing_placement (CXMappingPass a (NoiseAwarePlacement a' n e) d m) = Some NoiseAwareStrategy"
| "routing_placement p = None"

definition passes_of :: "'err + ('a, 'n, 'e) BasePass \<Rightarrow> ('a, 'n, 'e) BasePass list" where
  "passes_of r = (case r of Inr (SequencePass ps) \<Rightarrow> ps | Inr p \<Rightarrow> [p] | Inl e \<Rightarrow> [])"

definition routing_placements :: "'err + ('a, 'n, 'e) BasePass \<Rightarrow> PlacementStrategy list" where
  "routing_placements r = List.map_filter routing_placement (passes_of r)"

text \<open>The passes of a pipeline that place or route qubits.\<close>

fun places_qubits :: "('a, 'n, 'e) BasePass \<Rightarrow> bool" where
  "places_qubits (CXMappingPass a pl d m) = True"
| "places_qubits (NaivePlacementPass a) = True"
| "places_qubits p = False"

text \<open>The placement that the level policy of the specification prescribes for the
  routing pass: noise aware at level 2, naive at the levels below.\<close>

definition spec_placement :: "int \<Rightarrow> PlacementStrategy" where
  "spec_placement optimisation_level =
    (if optimisation_level = 2 then NoiseAwareStrategy else NaiveStrategy)"

section \<open>Pauli observables\<close>

text \<open>A \<^verbatim>\<open>QubitPauliString\<close> is read through \<^verbatim>\<open>term.map.items()\<close>, a
  \<^verbatim>\<open>QubitPauliOperator\<close> through \<^verbatim>\<open>operator._dict.items()\<close>: the lists of their
  items, in the order of iteration.\<close>

datatype Pauli = Pauli_I | Pauli_X | Pauli_Y | Pauli_Z

fun Pauli_name :: "Pauli \<Rightarrow> string" where
  "Pauli_name Pauli_I = ''I''"
| "Pauli_name Pauli_X = ''X''"
| "Pauli_name Pauli_Y = ''Y''"
| "Pauli_name Pauli_Z = ''Z''"

type_synonym QubitPauliString = "(Qubit \<times> Pauli) list"
type_synonym QubitPauliOperator = "(QubitPauliString \<times> complex) list"

text \<open>pyQuil's Pauli terms, as the expressions that the module builds: \<^verbatim>\<open>ID()\<close>,
  \<^verbatim>\<open>PauliTerm(name, index)\<close>, a term times a number, a term times a term. pyQuil's
  algebra on them is not interpreted.\<close>

datatype PauliTerm =
    ID
  | PauliTerm string nat
  | Scale PauliTerm complex
  | Times PauliTerm PauliTerm

text \<open>The argument of \<^verbatim>\<open>WavefunctionSimulator.expectation\<close>: a list of terms or a
  \<^verbatim>\<open>PauliSum\<close>.\<close>

datatype PauliArg = TermList "PauliTerm list" | PauliSum "PauliTerm list"

section \<open>Collaborators\<close>

text \<open>
  The backends drive objects that the module imports: the translation
  \<^verbatim>\<open>tk_to_pyquil\<close>, the compiler and the QAM of the \<^verbatim>\<open>QuantumComputer\<close>, helper
  methods of the base class \<^verbatim>\<open>Backend\<close>, pytket's circuit utilities, \<^verbatim>\<open>json\<close> and
  \<^verbatim>\<open>uuid4\<close>. Each is a field of the record below, applied where the source calls it.
  A program is a \<open>'p\<close>, an executable an \<open>'x\<close>, the QAM's job handle a \<open>'j\<close>.
  An exception raised inside a collaborator is outside this model, except where the
  source provides for it.
\<close>

text \<open>The \<^verbatim>\<open>n_shots\<close> argument: \<^verbatim>\<open>None | int | Sequence[int | None]\<close>.\<close>

datatype NShots = NoShots | Shots int | ShotsSeq "int option list"

text \<open>The keyword arguments that \<^verbatim>\<open>process_circuits\<close> reads with \<^verbatim>\<open>kwargs.get\<close>.\<close>

record Kwargs =
  seed :: "int option"
  postprocess :: bool
  simplify_initial :: bool

text \<open>A two-dimensional array of readouts: its number of columns and its rows.\<close>

record ndarray =
  n_cols :: nat
  rows :: "int list list"

record ('p, 'x, 'j) Collaborators =
  get_n_shots_as_list :: "NShots \<Rightarrow> nat \<Rightarrow> ResultHandle error + int list"
    \<comment> \<open>\<^verbatim>\<open>Backend._get_n_shots_as_list(n_shots, len(circuits), optional=False)\<close>\<close>
  check_all_circuits :: "Circuit list \<Rightarrow> bool"
    \<comment> \<open>\<^verbatim>\<open>self._check_all_circuits\<close>: False when it raises\<close>
  prepare_circuit :: "Circuit \<Rightarrow> Circuit \<times> Circuit"
    \<comment> \<open>\<^verbatim>\<open>prepare_circuit(circuit, allow_classical=False)\<close>\<close>
  SimplifyInitial_apply :: "Circuit \<Rightarrow> Circuit"
    \<comment> \<open>the circuit after \<^verbatim>\<open>SimplifyInitial(...).apply(circuit)\<close> rewrote it in place\<close>
  tk_to_pyquil :: "Circuit \<Rightarrow> 'p \<times> Bit list"
    \<comment> \<open>\<^verbatim>\<open>tk_to_pyquil(c0, return_used_bits=True)\<close>\<close>
  wrap_in_numshots_loop :: "'p \<Rightarrow> int \<Rightarrow> 'p"
  native_quil_to_executable :: "'p \<Rightarrow> 'x"
  qam_execute :: "'x \<Rightarrow> int option \<Rightarrow> nat \<Rightarrow> 'j"
    \<comment> \<open>\<^verbatim>\<open>qam.execute(ex)\<close> under \<^verbatim>\<open>qam.random_seed\<close>, as the n-th job of the QAM\<close>
  qam_get_result_ro :: "'j \<Rightarrow> ndarray option"
    \<comment> \<open>\<^verbatim>\<open>qam.get_result(pyquil_handle).readout_data["ro"]\<close>\<close>
  empty_result :: "Circuit \<Rightarrow> int \<Rightarrow> BackendResult"
    \<comment> \<open>\<^verbatim>\<open>self.empty_result(circuit, n_shots=n_shots)\<close>\<close>
  json_dumps :: "Circuit option \<Rightarrow> string"
    \<comment> \<open>\<^verbatim>\<open>json.dumps(ppcirc_rep)\<close>, of \<^verbatim>\<open>ppcirc.to_dict()\<close> or of \<^verbatim>\<open>None\<close>\<close>
  json_loads :: "string \<Rightarrow> Circuit option"
    \<comment> \<open>\<^verbatim>\<open>json.loads(handle[1])\<close>, then \<^verbatim>\<open>Circuit.from_dict\<close> unless it is \<^verbatim>\<open>None\<close>\<close>
  uuid4 :: "nat \<Rightarrow> int"
    \<comment> \<open>\<^verbatim>\<open>uuid4().int\<close> of the n-th UUID that the process draws\<close>
  add_I :: "'p \<Rightarrow> nat \<Rightarrow> 'p"
    \<comment> \<open>the program after \<^verbatim>\<open>p += I(Qubit_(i))\<close>\<close>
  wavefunction_amplitudes :: "'p \<Rightarrow> complex list"
    \<comment> \<open>\<^verbatim>\<open>self._sim.wavefunction(p).amplitudes\<close>\<close>
  expectation :: "'p \<Rightarrow> PauliArg \<Rightarrow> complex"
    \<comment> \<open>\<^verbatim>\<open>complex(self._sim.expectation(prog, ...))\<close>\<close>

section \<open>The shot-based backend \<^verbatim>\<open>ForestBackend\<close>\<close>

subsection \<open>The backend's state\<close>

text \<open>An entry of \<^verbatim>\<open>self._cache\<close> is a dictionary with the keys \<^verbatim>\<open>"handle"\<close> and
  \<^verbatim>\<open>"bit_indices"\<close>, and \<^verbatim>\<open>"result"\<close> once a result is there.\<close>

record 'j CacheEntry =
  handle :: 'j
  bit_indices :: "nat list"
  result :: "BackendResult option"

text \<open>The backend is its cache, the numbers of UUIDs drawn and of jobs executed so far,
  and the log of the job handles that were passed to \<^verbatim>\<open>qam.get_result\<close>: every fetch
  from the target appends to \<open>fetched\<close>.\<close>

record 'j ForestBackend =
  cache :: "ResultHandle \<rightharpoonup> 'j CacheEntry"
  uuids_drawn :: nat
  jobs_run :: nat
  fetched :: "'j list"

definition new_backend :: "'j ForestBackend" where
  "new_backend = \<lparr>cache = Map.empty, uuids_drawn = 0, jobs_run = 0, fetched = []\<rparr>"

subsection \<open>\<^verbatim>\<open>process_circuits\<close>\<close>

text \<open>\<^verbatim>\<open>xs.index(x)\<close>: the first position of \<open>x\<close>, \<open>None\<close> where Python raises
  \<^verbatim>\<open>ValueError\<close>.\<close>

fun list_index :: "'a list \<Rightarrow> 'a \<Rightarrow> nat option" where
  "list_index [] x = None"
| "list_index (y # ys) x = (if y = x then Some 0 else map_option Suc (list_index ys x))"

text \<open>
  The body of the loop, for one circuit and its number of shots. \<^verbatim>\<open>SimplifyInitial\<close>
  rewrites the object \<^verbatim>\<open>circuit\<close> in place: \<open>circuit_as_submitted\<close> is that object
  from then on, and the number of measurements is read from it. The circuit \<^verbatim>\<open>c0\<close>
  that is translated is \<open>circuit_as_translated\<close>: the same object when
  \<^verbatim>\<open>postprocess\<close> is off, the circuit that \<^verbatim>\<open>prepare_circuit\<close> returned (before
  \<^verbatim>\<open>SimplifyInitial\<close> ran) when it is on.
\<close>

definition circuit_as_submitted :: "('p, 'x, 'j) Collaborators \<Rightarrow> Kwargs \<Rightarrow> Circuit \<Rightarrow> Circuit" where
  "circuit_as_submitted env kw circuit =
    (if simplify_initial kw then SimplifyInitial_apply env circuit else circuit)"

definition circuit_as_translated :: "('p, 'x, 'j) Collaborators \<Rightarrow> Kwargs \<Rightarrow> Circuit \<Rightarrow> Circuit" where
  "circuit_as_translated env kw circuit =
    (if postprocess kw then fst (prepare_circuit env circuit)
     else circuit_as_submitted env kw circuit)"

definition submit_circuit ::
  "('p, 'x, 'j) Collaborators \<Rightarrow> Kwargs \<Rightarrow> 'j ForestBackend \<Rightarrow> Circuit \<Rightarrow> int \<Rightarrow>
     (ResultHandle error + ResultHandle) \<times> 'j ForestBackend" where
  "submit_circuit env kw s circuit n_shots =
    (let ppcirc_rep = (if postprocess kw then Some (snd (prepare_circuit env circuit)) else None);
         circuit1 = circuit_as_submitted env kw circuit;
         c0 = circuit_as_translated env kw circuit;
         translated = tk_to_pyquil env c0
     in case those (map (list_index (bits c0)) (snd translated)) of
          None \<Rightarrow> (Inl (ValueError ''bit is not in list''), s)
        | Some indices \<Rightarrow>
            (let p = wrap_in_numshots_loop env (fst translated) n_shots;
                 ex = native_quil_to_executable env p;
                 pyquil_handle = qam_execute env ex (seed kw) (jobs_run s);
                 h = ResultHandle (uuid4 env (uuids_drawn s)) (json_dumps env ppcirc_rep);
                 measures = n_gates_of_type circuit1 Measure;
                 entry = \<lparr>handle = pyquil_handle, bit_indices = sort indices,
                          result = (if measures = 0
                                    then Some (empty_result env circuit1 n_shots) else None)\<rparr>
             in (Inr h, s\<lparr>cache := (cache s)(h \<mapsto> entry),
                          uuids_drawn := Suc (uuids_drawn s),
                          jobs_run := Suc (jobs_run s)\<rparr>)))"

text \<open>The loop over \<^verbatim>\<open>zip(circuits, n_shots_list)\<close>. An exception leaves the loop
  with the cache as the circuits before it left it, and no handle is returned.\<close>

fun submit_all ::
  "('p, 'x, 'j) Collaborators \<Rightarrow> Kwargs \<Rightarrow> 'j ForestBackend \<Rightarrow> (Circuit \<times> int) list \<Rightarrow>
     (ResultHandle error + ResultHandle list) \<times> 'j ForestBackend" where
  "submit_all env kw s [] = (Inr [], s)"
| "submit_all env kw s ((circuit, n_shots) # rest) =
    (case submit_circuit env kw s circuit n_shots of
       (Inl e, s1) \<Rightarrow> (Inl e, s1)
     | (Inr h, s1) \<Rightarrow>
         (case submit_all env kw s1 rest of
            (Inl e, s2) \<Rightarrow> (Inl e, s2)
          | (Inr hs, s2) \<Rightarrow> (Inr (h # hs), s2)))"

definition process_circuits ::
  "('p, 'x, 'j) Collaborators \<Rightarrow> 'j ForestBackend \<Rightarrow> Circuit list \<Rightarrow> NShots \<Rightarrow> bool \<Rightarrow>
     Kwargs \<Rightarrow> (ResultHandle error + ResultHandle list) \<times> 'j ForestBackend" where
  "process_circuits env s circuits n_shots valid_check kw =
    (case get_n_shots_as_list env n_shots (length circuits) of
       Inl e \<Rightarrow> (Inl e, s)
     | Inr n_shots_list \<Rightarrow>
         if valid_check \<and> \<not> check_all_circuits env circuits
         then (Inl CircuitNotValidError, s)
         else submit_all env kw s (zip circuits n_shots_list))"

subsection \<open>\<^verbatim>\<open>circuit_status\<close>\<close>

definition circuit_status ::
  "'j ForestBackend \<Rightarrow> ResultHandle \<Rightarrow> ResultHandle error + StatusEnum" where
  "circuit_status s h =
    (case cache s h of
       Some entry \<Rightarrow>
         (case result entry of
            Some r \<Rightarrow> Inr COMPLETED
          | None \<Rightarrow> Inl PyQuilJobStatusUnavailable)
     | None \<Rightarrow> Inl (CircuitNotRunError h))"

subsection \<open>\<^verbatim>\<open>get_result\<close>\<close>

text \<open>
  Modelled from the spec: the method \<^verbatim>\<open>Backend.get_result\<close> of the base class, which
  \<^verbatim>\<open>ForestBackend.get_result\<close> calls first as \<^verbatim>\<open>super().get_result(handle)\<close>, is
  not part of the module. By the specification of result retrieval a cached result is
  returned unchanged, without a fetch, and the source relies on \<^verbatim>\<open>CircuitNotRunError\<close>
  being raised otherwise. A handle here has the types of \<^verbatim>\<open>_result_id_type\<close> by
  construction.
\<close>

definition Backend_get_result ::
  "'j ForestBackend \<Rightarrow> ResultHandle \<Rightarrow> ResultHandle error + BackendResult" where
  "Backend_get_result s h =
    (case cache s h of
       Some entry \<Rightarrow>
         (case result entry of Some r \<Rightarrow> Inr r | None \<Rightarrow> Inl (CircuitNotRunError h))
     | None \<Rightarrow> Inl (CircuitNotRunError h))"

text \<open>\<^verbatim>\<open>raw_shots[:, idx]\<close>: every row restricted to the columns \<open>idx\<close>, in the order
  of \<open>idx\<close>; numpy raises \<^verbatim>\<open>IndexError\<close> for a column that the array does not have.\<close>

definition take_columns :: "ndarray \<Rightarrow> nat list \<Rightarrow> ndarray option" where
  "take_columns a idx =
    (if list_all (\<lambda>i. i < n_cols a) idx
     then Some \<lparr>n_cols = length idx, rows = map (\<lambda>row. map (\<lambda>i. row ! i) idx) (rows a)\<rparr>
     else None)"

definition get_result ::
  "('p, 'x, 'j) Collaborators \<Rightarrow> 'j ForestBackend \<Rightarrow> ResultHandle \<Rightarrow>
     (ResultHandle error + BackendResult) \<times> 'j ForestBackend" where
  "get_result env s h =
    (case Backend_get_result s h of
       Inr r \<Rightarrow> (Inr r, s)
     | Inl (CircuitNotRunError h') \<Rightarrow>
         (case cache s h of
            None \<Rightarrow> (Inl (CircuitNotRunError h), s)
          | Some entry \<Rightarrow>
              (let s1 = s\<lparr>fetched := fetched s @ [handle entry]\<rparr>
               in case qam_get_result_ro env (handle entry) of
                    None \<Rightarrow> (Inl (ValueError ''Could not read job results in memory''), s1)
                  | Some raw_shots \<Rightarrow>
                      (case take_columns raw_shots (bit_indices entry) of
                         None \<Rightarrow> (Inl IndexError, s1)
                       | Some filtered \<Rightarrow>
                           (let res = \<lparr>shots = Some (rows filtered),
                                       ppcirc = (case h of ResultHandle u js \<Rightarrow> json_loads env js),
                                       q_bits = None, state = None\<rparr>
                            in (Inr res,
                                s1\<lparr>cache := (cache s1)(h \<mapsto> entry\<lparr>result := Some res\<rparr>)\<rparr>)))))
     | Inl e \<Rightarrow> (Inl e, s))"

section \<open>The state-vector backend \<^verbatim>\<open>ForestStateBackend\<close>\<close>

text \<open>An entry of its cache is the dictionary \<^verbatim>\<open>{"result": res}\<close>.\<close>

record StateCacheEntry =
  state_result :: BackendResult

record ForestStateBackend =
  state_cache :: "StateHandle \<rightharpoonup> StateCacheEntry"
  state_uuids_drawn :: nat

definition new_state_backend :: ForestStateBackend where
  "new_state_backend = \<lparr>state_cache = Map.empty, state_uuids_drawn = 0\<rparr>"

text \<open>\<^verbatim>\<open>qb.index[0]\<close> raises \<^verbatim>\<open>IndexError\<close> on an empty index tuple.\<close>

definition first_index :: "UnitID \<Rightarrow> nat option" where
  "first_index u = (case index u of [] \<Rightarrow> None | i # rest \<Rightarrow> Some i)"

text \<open>\<^verbatim>\<open>sorted(circuit.qubits, reverse=True)\<close>: unit identifiers are ordered by
  register name, then index.\<close>

definition sorted_reverse :: "UnitID list \<Rightarrow> UnitID list" where
  "sorted_reverse us = rev (sort_key (\<lambda>u. (reg_name u, index u)) us)"

text \<open>\<^verbatim>\<open>state *= np.exp(phase * np.pi * 1j)\<close>, over the complex numbers; for a
  symbolic phase the source logs a warning and leaves the amplitudes as they are.\<close>

definition adjust_phase :: "Phase \<Rightarrow> complex list \<Rightarrow> complex list" where
  "adjust_phase ph amplitudes =
    (case ph of
       Numeric x \<Rightarrow> map (\<lambda>a. a * exp (complex_of_real x * complex_of_real pi * \<i>)) amplitudes
     | Symbolic e \<Rightarrow> amplitudes)"

text \<open>The body of the loop of \<^verbatim>\<open>ForestStateBackend.process_circuits\<close>.\<close>

definition state_submit_circuit ::
  "('p, 'x, 'j) Collaborators \<Rightarrow> ForestStateBackend \<Rightarrow> Circuit \<Rightarrow>
     (StateHandle error + StateHandle) \<times> ForestStateBackend" where
  "state_submit_circuit env s circuit =
    (case those (map first_index (qubits circuit)) of
       None \<Rightarrow> (Inl IndexError, s)
     | Some idxs \<Rightarrow>
         (let p = foldl (add_I env) (fst (tk_to_pyquil env circuit)) idxs;
              h = StateHandle (uuid4 env (state_uuids_drawn s));
              s1 = s\<lparr>state_uuids_drawn := Suc (state_uuids_drawn s)\<rparr>;
              amplitudes = adjust_phase (phase circuit) (wavefunction_amplitudes env p)
          in case those (map (map_of (implicit_qubit_permutation circuit))
                           (sorted_reverse (qubits circuit))) of
               None \<Rightarrow> (Inl KeyError, s1)
             | Some res_qubits \<Rightarrow>
                 (let res = \<lparr>shots = None, ppcirc = None, q_bits = Some res_qubits,
                             state = Some amplitudes\<rparr>
                  in (Inr h, s1\<lparr>state_cache :=
                                  (state_cache s1)(h \<mapsto> \<lparr>state_result = res\<rparr>)\<rparr>))))"

fun state_submit_all ::
  "('p, 'x, 'j) Collaborators \<Rightarrow> ForestStateBackend \<Rightarrow> Circuit list \<Rightarrow>
     (StateHandle error + StateHandle list) \<times> ForestStateBackend" where
  "state_submit_all env s [] = (Inr [], s)"
| "state_submit_all env s (circuit # rest) =
    (case state_submit_circuit env s circuit of
       (Inl e, s1) \<Rightarrow> (Inl e, s1)
     | (Inr h, s1) \<Rightarrow>
         (case state_submit_all env s1 rest of
            (Inl e, s2) \<Rightarrow> (Inl e, s2)
          | (Inr hs, s2) \<Rightarrow> (Inr (h # hs), s2)))"

definition state_process_circuits ::
  "('p, 'x, 'j) Collaborators \<Rightarrow> ForestStateBackend \<Rightarrow> Circuit list \<Rightarrow> bool \<Rightarrow>
     (StateHandle error + StateHandle list) \<times> ForestStateBackend" where
  "state_process_circuits env s circuits valid_check =
    (if valid_check \<and> \<not> check_all_circuits env circuits
     then (Inl CircuitNotValidError, s)
     else state_submit_all env s circuits)"

definition state_circuit_status ::
  "ForestStateBackend \<Rightarrow> StateHandle \<Rightarrow> StateHandle error + StatusEnum" where
  "state_circuit_status s h =
    (case state_cache s h of
       Some entry \<Rightarrow> Inr COMPLETED
     | None \<Rightarrow> Inl (CircuitNotRunError h))"

subsection \<open>Expectation values\<close>

definition default_q_index :: "Qubit \<Rightarrow> StateHandle error + nat" where
  "default_q_index q =
    (if reg_name q \<noteq> ''q'' \<or> length (index q) \<noteq> 1
     then Inl (ValueError ''Non-default qubit register'')
     else Inr (index q ! 0))"

text \<open>The loop of \<^verbatim>\<open>_gen_PauliTerm\<close> over the items of the Pauli string, from the
  term built so far.\<close>

fun gen_PauliTerm_from :: "PauliTerm \<Rightarrow> QubitPauliString \<Rightarrow> StateHandle error + PauliTerm" where
  "gen_PauliTerm_from pauli_term [] = Inr pauli_term"
| "gen_PauliTerm_from pauli_term ((q, p) # rest) =
    (case default_q_index q of
       Inl e \<Rightarrow> Inl e
     | Inr i \<Rightarrow> gen_PauliTerm_from (Times pauli_term (PauliTerm (Pauli_name p) i)) rest)"

definition gen_PauliTerm :: "QubitPauliString \<Rightarrow> complex \<Rightarrow> StateHandle error + PauliTerm" where
  "gen_PauliTerm term coeff = gen_PauliTerm_from (Scale ID coeff) term"

definition get_pauli_expectation_value ::
  "('p, 'x, 'j) Collaborators \<Rightarrow> Circuit \<Rightarrow> QubitPauliString \<Rightarrow> StateHandle error + complex" where
  "get_pauli_expectation_value env state_circuit pauli =
    (let prog = fst (tk_to_pyquil env state_circuit)
     in case gen_PauliTerm pauli 1 of
          Inl e \<Rightarrow> Inl e
        | Inr pauli_term \<Rightarrow> Inr (expectation env prog (TermList [pauli_term])))"

text \<open>The list comprehension of \<^verbatim>\<open>get_operator_expectation_value\<close>: the first term
  that raises ends it.\<close>

fun gen_PauliTerms :: "QubitPauliOperator \<Rightarrow> StateHandle error + PauliTerm list" where
  "gen_PauliTerms [] = Inr []"
| "gen_PauliTerms ((term, coeff) # rest) =
    (case gen_PauliTerm term coeff of
       Inl e \<Rightarrow> Inl e
     | Inr t \<Rightarrow> (case gen_PauliTerms rest of Inl e \<Rightarrow> Inl e | Inr ts \<Rightarrow> Inr (t # ts)))"

definition get_operator_expectation_value ::
  "('p, 'x, 'j) Collaborators \<Rightarrow> Circuit \<Rightarrow> QubitPauliOperator \<Rightarrow> StateHandle error + complex" where
  "get_operator_expectation_value env state_circuit operator =
    (let prog = fst (tk_to_pyquil env state_circuit)
     in case gen_PauliTerms operator of
          Inl e \<Rightarrow> Inl e
        | Inr terms \<Rightarrow> Inr (expectation env prog (PauliSum terms)))"

section \<open>Derived notions\<close>

subsection \<open>Cache entries and measured bits\<close>

text \<open>A handle has a result when its cache entry holds the key \<^verbatim>\<open>"result"\<close>: the test
  \<^verbatim>\<open>handle in self._cache and "result" in self._cache[handle]\<close>.\<close>

definition has_result :: "'j ForestBackend \<Rightarrow> ResultHandle \<Rightarrow> bool" where
  "has_result s h = (case cache s h of Some entry \<Rightarrow> result entry \<noteq> None | None \<Rightarrow> False)"

text \<open>The \<^verbatim>\<open>"result"\<close> of the entry that the loop body stores for a circuit.\<close>

definition entry_result ::
  "('p, 'x, 'j) Collaborators \<Rightarrow> Kwargs \<Rightarrow> Circuit \<Rightarrow> int \<Rightarrow> BackendResult option" where
  "entry_result env kw circuit n =
    (if n_gates_of_type (circuit_as_submitted env kw circuit) Measure = 0
     then Some (empty_result env (circuit_as_submitted env kw circuit) n) else None)"

text \<open>The bits that the translation reports as measured (\<^verbatim>\<open>bits\<close> in the source), one
  per \<^verbatim>\<open>Measure\<close> operation, and the ascending list of their positions in
  \<^verbatim>\<open>c0.bits\<close>: \<^verbatim>\<open>sorted(bit_indices)\<close>, in which a bit that is reported twice
  has its position twice.\<close>

definition used_bits :: "('p, 'x, 'j) Collaborators \<Rightarrow> Kwargs \<Rightarrow> Circuit \<Rightarrow> Bit list" where
  "used_bits env kw circuit = snd (tk_to_pyquil env (circuit_as_translated env kw circuit))"

definition measured_columns ::
  "('p, 'x, 'j) Collaborators \<Rightarrow> Kwargs \<Rightarrow> Circuit \<Rightarrow> nat list" where
  "measured_columns env kw circuit =
    sort (List.map_filter
      (list_index (bits (circuit_as_translated env kw circuit))) (used_bits env kw circuit))"

text \<open>The bits of the default register \<^verbatim>\<open>c\<close> of size \<open>m\<close>, in the order of
  \<^verbatim>\<open>circuit.bits\<close>.\<close>

definition default_bits :: "nat \<Rightarrow> Bit list" where
  "default_bits m = map (\<lambda>i. \<lparr>reg_name = ''c'', index = [i]\<rparr>) [0..<m]"

subsection \<open>Programs and Pauli terms of the state-vector backend\<close>

text \<open>The program that is simulated: the translation with an identity gate added for
  every qubit of the circuit.\<close>

definition state_program :: "('p, 'x, 'j) Collaborators \<Rightarrow> Circuit \<Rightarrow> 'p" where
  "state_program env circuit =
    foldl (add_I env) (fst (tk_to_pyquil env circuit))
      (List.map_filter first_index (qubits circuit))"

text \<open>The \<^verbatim>\<open>BackendResult\<close> that the loop body computes for a circuit: the qubits
  \<^verbatim>\<open>[implicit_perm[qb] for qb in sorted(circuit.qubits, reverse=True)]\<close> and the
  amplitudes of the simulator for the circuit's program, adjusted for the global
  phase.\<close>

definition computed_result :: "('p, 'x, 'j) Collaborators \<Rightarrow> Circuit \<Rightarrow> BackendResult" where
  "computed_result env circuit =
    \<lparr>shots = None, ppcirc = None,
     q_bits = Some (List.map_filter (map_of (implicit_qubit_permutation circuit))
                      (sorted_reverse (qubits circuit))),
     state = Some (adjust_phase (phase circuit)
                     (wavefunction_amplitudes env (state_program env circuit)))\<rparr>"

text \<open>The test of \<^verbatim>\<open>_default_q_index\<close>, negated: the qubit is in the register \<^verbatim>\<open>q\<close>
  and has a single index.\<close>

definition in_default_register :: "Qubit \<Rightarrow> bool" where
  "in_default_register q \<longleftrightarrow> reg_name q = ''q'' \<and> length (index q) = 1"

text \<open>One factor \<^verbatim>\<open>PauliTerm(p.name, q.index[0])\<close> per item of a Pauli string, and the
  product \<^verbatim>\<open>ID() * coeff * factor * ... * factor\<close>.\<close>

definition pauli_factors :: "QubitPauliString \<Rightarrow> PauliTerm list" where
  "pauli_factors term = map (\<lambda>(q, p). PauliTerm (Pauli_name p) (index q ! 0)) term"

definition product_term :: "complex \<Rightarrow> QubitPauliString \<Rightarrow> PauliTerm" where
  "product_term coeff term = foldl Times (Scale ID coeff) (pauli_factors term)"

section \<open>Runs of a backend\<close>

text \<open>
  A caller drives a \<^verbatim>\<open>ForestBackend\<close> through a sequence of method calls. A run
  starts from a backend and returns the trace, every call paired with its reply, and
  the backend after the last call.
\<close>

datatype Call =
    ProcessCircuits "Circuit list" NShots bool Kwargs
  | GetResult ResultHandle
  | CircuitStatus ResultHandle

datatype Reply =
    Handles "ResultHandle error + ResultHandle list"
  | Result "ResultHandle error + BackendResult"
  | Status "ResultHandle error + StatusEnum"

fun call ::
  "('p, 'x, 'j) Collaborators \<Rightarrow> 'j ForestBackend \<Rightarrow> Call \<Rightarrow> Reply \<times> 'j ForestBackend" where
  "call env s (ProcessCircuits circuits n_shots valid_check kw) =
    (case process_circuits env s circuits n_shots valid_check kw of
       (r, s1) \<Rightarrow> (Handles r, s1))"
| "call env s (GetResult h) = (case get_result env s h of (r, s1) \<Rightarrow> (Result r, s1))"
| "call env s (CircuitStatus h) = (Status (circuit_status s h), s)"

fun run ::
  "('p, 'x, 'j) Collaborators \<Rightarrow> 'j ForestBackend \<Rightarrow> Call list \<Rightarrow>
     (Call \<times> Reply) list \<times> 'j ForestBackend" where
  "run env s [] = ([], s)"
| "run env s (c # cs) =
    (case call env s c of
       (r, s1) \<Rightarrow> (case run env s1 cs of (tr, s2) \<Rightarrow> ((c, r) # tr, s2)))"

text \<open>\<open>retrieved tr h\<close>: some call \<^verbatim>\<open>get_result(h)\<close> of the trace returned a result.\<close>

definition is_retrieval :: "ResultHandle \<Rightarrow> Call \<times> Reply \<Rightarrow> bool" where
  "is_retrieval h cr = (case cr of (GetResult h', Result (Inr r)) \<Rightarrow> h' = h | _ \<Rightarrow> False)"

definition retrieved :: "(Call \<times> Reply) list \<Rightarrow> ResultHandle \<Rightarrow> bool" where
  "retrieved tr h = list_ex (is_retrieval h) tr"

text \<open>\<open>issued tr h\<close>: some call \<^verbatim>\<open>process_circuits\<close> of the trace returned \<open>h\<close>.\<close>

definition is_issue :: "ResultHandle \<Rightarrow> Call \<times> Reply \<Rightarrow> bool" where
  "is_issue h cr = (case cr of (c, Handles (Inr hs)) \<Rightarrow> h \<in> set hs | _ \<Rightarrow> False)"

definition issued :: "(Call \<times> Reply) list \<Rightarrow> ResultHandle \<Rightarrow> bool" where
  "issued tr h = list_ex (is_issue h) tr"

text \<open>\<open>issued_unmeasured env tr h\<close>: some call \<^verbatim>\<open>process_circuits\<close> of the trace
  returned \<open>h\<close> for a circuit in which it counted no \<^verbatim>\<open>Measure\<close> operation.\<close>

definition is_unmeasured_issue ::
  "('p, 'x, 'j) Collaborators \<Rightarrow> ResultHandle \<Rightarrow> Call \<times> Reply \<Rightarrow> bool" where
  "is_unmeasured_issue env h cr =
    (case cr of
       (ProcessCircuits circuits n_shots valid_check kw, Handles (Inr hs)) \<Rightarrow>
         list_ex (\<lambda>(circuit, h'). h' = h
                    \<and> n_gates_of_type (circuit_as_submitted env kw circuit) Measure = 0)
           (zip circuits hs)
     | _ \<Rightarrow> False)"

definition issued_unmeasured ::
  "('p, 'x, 'j) Collaborators \<Rightarrow> (Call \<times> Reply) list \<Rightarrow> ResultHandle \<Rightarrow> bool" where
  "issued_unmeasured env tr h = list_ex (is_unmeasured_issue env h) tr"

text \<open>The invariant of a run whose UUIDs are pairwise different: every handle of the
  cache carries one of the UUIDs drawn so far, a handle that was retrieved has a
  result, and a handle that was issued is in the cache, with a result exactly when it
  was retrieved or issued for a circuit without measurements.\<close>

definition known_by_uuid :: "('p, 'x, 'j) Collaborators \<Rightarrow> 'j ForestBackend \<Rightarrow> bool" where
  "known_by_uuid env s \<longleftrightarrow>
    (\<forall>h. cache s h \<noteq> None \<longrightarrow>
       (\<exists>k js. k < uuids_drawn s \<and> h = ResultHandle (uuid4 env k) js))"

definition run_inv ::
  "('p, 'x, 'j) Collaborators \<Rightarrow> (Call \<times> Reply) list \<Rightarrow> 'j ForestBackend \<Rightarrow> bool" where
  "run_inv env tr s \<longleftrightarrow>
    known_by_uuid env s
    \<and> (\<forall>h. retrieved tr h \<longrightarrow> has_result s h)
    \<and> (\<forall>h. issued tr h \<longrightarrow> cache s h \<noteq> None
          \<and> (has_result s h \<longleftrightarrow> retrieved tr h \<or> issued_unmeasured env tr h))"

text \<open>The same for \<^verbatim>\<open>ForestStateBackend\<close>, whose methods in the module are
  \<^verbatim>\<open>process_circuits\<close> and \<^verbatim>\<open>circuit_status\<close>.\<close>

datatype StateCall = StateProcessCircuits "Circuit list" bool | StateCircuitStatus StateHandle

datatype StateReply =
    StateHandles "StateHandle error + StateHandle list"
  | StateStatus "StateHandle error + StatusEnum"

fun state_call ::
  "('p, 'x, 'j) Collaborators \<Rightarrow> ForestStateBackend \<Rightarrow> StateCall \<Rightarrow>
     StateReply \<times> ForestStateBackend" where
  "state_call env s (StateProcessCircuits circuits valid_check) =
    (case state_process_circuits env s circuits valid_check of
       (r, s1) \<Rightarrow> (StateHandles r, s1))"
| "state_call env s (StateCircuitStatus h) = (StateStatus (state_circuit_status s h), s)"

fun state_run ::
  "('p, 'x, 'j) Collaborators \<Rightarrow> ForestStateBackend \<Rightarrow> StateCall list \<Rightarrow>
     (StateCall \<times> StateReply) list \<times> ForestStateBackend" where
  "state_run env s [] = ([], s)"
| "state_run env s (c # cs) =
    (case state_call env s c of
       (r, s1) \<Rightarrow> (case state_run env s1 cs of (tr, s2) \<Rightarrow> ((c, r) # tr, s2)))"

definition is_state_issue :: "StateHandle \<Rightarrow> StateCall \<times> StateReply \<Rightarrow> bool" where
  "is_state_issue h cr =
    (case cr of (c, StateHandles (Inr hs)) \<Rightarrow> h \<in> set hs | _ \<Rightarrow> False)"

definition state_issued :: "(StateCall \<times> StateReply) list \<Rightarrow> StateHandle \<Rightarrow> bool" where
  "state_issued tr h = list_ex (is_state_issue h) tr"

text \<open>\<open>state_issued_for tr h circuit\<close>: some call \<^verbatim>\<open>process_circuits\<close> of the trace
  returned \<open>h\<close> as the handle of \<open>circuit\<close>.\<close>

definition is_state_issue_for ::
  "StateHandle \<Rightarrow> Circuit \<Rightarrow> StateCall \<times> StateReply \<Rightarrow> bool" where
  "is_state_issue_for h circuit cr =
    (case cr of
       (StateProcessCircuits circuits valid_check, StateHandles (Inr hs)) \<Rightarrow>
         (circuit, h) \<in> set (zip circuits hs)
     | _ \<Rightarrow> False)"

definition state_issued_for ::
  "(StateCall \<times> StateReply) list \<Rightarrow> StateHandle \<Rightarrow> Circuit \<Rightarrow> bool" where
  "state_issued_for tr h circuit = list_ex (is_state_issue_for h circuit) tr"

text \<open>The invariant of a run whose UUIDs are pairwise different: every handle of the
  cache carries one of the UUIDs drawn so far, and the cache holds, under every handle
  that was issued for a circuit, the result computed for that circuit.\<close>

definition state_known_by_uuid ::
  "('p, 'x, 'j) Collaborators \<Rightarrow> ForestStateBackend \<Rightarrow> bool" where
  "state_known_by_uuid env s \<longleftrightarrow>
    (\<forall>h. state_cache s h \<noteq> None \<longrightarrow>
       (\<exists>k. k < state_uuids_drawn s \<and> h = StateHandle (uuid4 env k)))"

definition state_run_inv ::
  "('p, 'x, 'j) Collaborators \<Rightarrow> (StateCall \<times> StateReply) list \<Rightarrow> ForestStateBackend \<Rightarrow> bool"
  where
  "state_run_inv env tr s \<longleftrightarrow>
    state_known_by_uuid env s
    \<and> (\<forall>h c. state_issued_for tr h c \<longrightarrow>
          state_cache s h = Some \<lparr>state_result = computed_result env c\<rparr>)"

section \<open>Concrete inputs\<close>

text \<open>A device of two nodes with one link, and its averaged error tables.\<close>

definition info0 :: "((nat \<times> nat) list, (nat \<times> rat) list, ((nat \<times> nat) \<times> rat) list) BackendInfo" where
  "info0 = \<lparr>architecture = [(0, 1)],
            averaged_node_gate_errors = [(0, 1 / 100), (1, 2 / 100)],
            averaged_edge_gate_errors = [((0, 1), 5 / 100)]\<rparr>"

text \<open>A backend whose cache knows two handles: one with a result, one without.\<close>

definition result0 :: BackendResult where
  "result0 = \<lparr>shots = Some [[0, 1], [1, 1]], ppcirc = None, q_bits = None, state = None\<rparr>"

definition backend0 :: "nat ForestBackend" where
  "backend0 = \<lparr>cache = [ResultHandle 7 ''null'' \<mapsto>
                          \<lparr>handle = 0, bit_indices = [0, 1], result = Some result0\<rparr>,
                        ResultHandle 8 ''null'' \<mapsto>
                          \<lparr>handle = 1, bit_indices = [0, 1], result = None\<rparr>],
               uuids_drawn = 2, jobs_run = 2, fetched = [0]\<rparr>"

text \<open>Two qubits, three bits and two circuits over them: one that measures qubit 0
  into bit 2 and qubit 1 into bit 0, and one without measurements and with global
  phase 1.\<close>

definition q_0 :: Qubit where "q_0 = \<lparr>reg_name = ''q'', index = [0]\<rparr>"
definition q_1 :: Qubit where "q_1 = \<lparr>reg_name = ''q'', index = [1]\<rparr>"
definition a_0 :: Qubit where "a_0 = \<lparr>reg_name = ''a'', index = [0]\<rparr>"
definition c_0 :: Bit where "c_0 = \<lparr>reg_name = ''c'', index = [0]\<rparr>"
definition c_1 :: Bit where "c_1 = \<lparr>reg_name = ''c'', index = [1]\<rparr>"
definition c_2 :: Bit where "c_2 = \<lparr>reg_name = ''c'', index = [2]\<rparr>"

definition circ_measured :: Circuit where
  "circ_measured = \<lparr>qubits = [q_0, q_1], bits = [c_0, c_1, c_2],
     commands = [\<lparr>op_type = CZ, args = [q_0, q_1]\<rparr>,
                 \<lparr>op_type = Measure, args = [q_0, c_2]\<rparr>,
                 \<lparr>op_type = Measure, args = [q_1, c_0]\<rparr>],
     phase = Numeric 0, implicit_qubit_permutation = [(q_0, q_0), (q_1, q_1)]\<rparr>"

text \<open>A circuit that measures both qubits into bit 1.\<close>

definition circ_double :: Circuit where
  "circ_double = \<lparr>qubits = [q_0, q_1], bits = [c_0, c_1, c_2],
     commands = [\<lparr>op_type = Measure, args = [q_0, c_1]\<rparr>,
                 \<lparr>op_type = Measure, args = [q_1, c_1]\<rparr>],
     phase = Numeric 0, implicit_qubit_permutation = [(q_0, q_0), (q_1, q_1)]\<rparr>"

definition circ_unmeasured :: Circuit where
  "circ_unmeasured = \<lparr>qubits = [q_0], bits = [c_0],
     commands = [\<lparr>op_type = Rx, args = [q_0]\<rparr>],
     phase = Numeric 1, implicit_qubit_permutation = [(q_0, q_0)]\<rparr>"

text \<open>Collaborators for these inputs. The translation reports the bit of every
  \<^verbatim>\<open>Measure\<close> operation, in the order of the commands; the QAM returns two shots over
  three bits; the UUIDs are 1000, 1001, ...\<close>

definition measure_targets :: "Circuit \<Rightarrow> Bit list" where
  "measure_targets c =
    concat (map (\<lambda>cmd. if op_type cmd = Measure then drop 1 (args cmd) else []) (commands c))"

definition env0 :: "(string list, string list, nat) Collaborators" where
  "env0 = \<lparr>
     get_n_shots_as_list = (\<lambda>ns k. case ns of
         Shots n \<Rightarrow> if n > 0 then Inr (replicate k n) else Inl (ValueError ''n_shots'')
       | NoShots \<Rightarrow> Inl (ValueError ''n_shots'')
       | ShotsSeq xs \<Rightarrow> Inl (ValueError ''n_shots'')),
     check_all_circuits = (\<lambda>cs. True),
     prepare_circuit = (\<lambda>c. (c, c\<lparr>commands := []\<rparr>)),
     SimplifyInitial_apply = (\<lambda>c. c),
     tk_to_pyquil = (\<lambda>c. (map (\<lambda>cmd. ''op'') (commands c), measure_targets c)),
     wrap_in_numshots_loop = (\<lambda>p n. p),
     native_quil_to_executable = (\<lambda>p. p),
     qam_execute = (\<lambda>x sd k. k),
     qam_get_result_ro = (\<lambda>j. Some \<lparr>n_cols = 3, rows = [[0, 1, 0], [1, 1, 0]]\<rparr>),
     empty_result = (\<lambda>c n. \<lparr>shots = Some (replicate (nat n) (replicate (length (bits c)) 0)),
                          ppcirc = None, q_bits = None, state = None\<rparr>),
     json_dumps = (\<lambda>pp. case pp of None \<Rightarrow> ''null'' | Some c \<Rightarrow> ''{}''),
     json_loads = (\<lambda>js. None),
     uuid4 = (\<lambda>k. 1000 + int k),
     add_I = (\<lambda>p i. p @ [''I'']),
     wavefunction_amplitudes = (\<lambda>p. [1, 0]),
     expectation = (\<lambda>p a. case a of TermList ts \<Rightarrow> of_nat (length ts)
                                    | PauliSum ts \<Rightarrow> of_nat (length ts))\<rparr>"

definition kw0 :: Kwargs where
  "kw0 = \<lparr>seed = None, postprocess = False, simplify_initial = False\<rparr>"

definition batch0 :: Call where
  "batch0 = ProcessCircuits [circ_measured, circ_unmeasured] (Shots 2) True kw0"

text \<open>Two Pauli strings: one over the register \<^verbatim>\<open>q\<close>, one that names a qubit of a
  register \<^verbatim>\<open>a\<close>.\<close>

definition pauli_ok :: QubitPauliString where
  "pauli_ok = [(q_0, Pauli_X), (q_1, Pauli_Z)]"

definition pauli_bad :: QubitPauliString where
  "pauli_bad = [(q_0, Pauli_X), (a_0, Pauli_Z)]"

lemmas input_defs = env0_def kw0_def circ_measured_def circ_unmeasured_def circ_double_def
  q_0_def q_1_def a_0_def c_0_def c_1_def c_2_def measure_targets_def batch0_def

lemmas forest_defs = process_circuits_def submit_circuit_def circuit_as_submitted_def
  circuit_as_translated_def n_gates_of_type_def new_backend_def get_result_def
  Backend_get_result_def take_columns_def circuit_status_def

lemmas state_defs = state_process_circuits_def state_submit_circuit_def first_index_def
  sorted_reverse_def adjust_phase_def new_state_backend_def state_circuit_status_def
  state_program_def

section \<open>Facts about lists\<close>

lemma distinct_nth_not_later:
  "distinct xs \<Longrightarrow> i < length xs \<Longrightarrow> xs ! i \<notin> set (drop (Suc i) xs)"
  by (metis Cons_nth_drop_Suc distinct.simps(2) distinct_drop)

lemma map_filter_those:
  "those (map f xs) = Some ys \<Longrightarrow> List.map_filter f xs = ys"
  by (induction xs arbitrary: ys) (auto simp: List.map_filter_simps split: option.splits)

lemma those_map_Some:
  "those (map f xs) = Some ys \<Longrightarrow> map Some ys = map f xs"
  by (induction xs arbitrary: ys) (auto split: option.splits)

lemma list_index_Some:
  "list_index xs x = Some i \<Longrightarrow> i < length xs \<and> xs ! i = x"
  by (induction xs arbitrary: i) (auto split: if_splits)

lemma positions_facts:
  assumes "those (map (list_index bs) used) = Some idx"
  shows "length idx = length used
    \<and> (\<forall>k < length used. list_index bs (used ! k) = Some (idx ! k))
    \<and> set idx = {i. \<exists>b\<in>set used. list_index bs b = Some i}
    \<and> set used \<subseteq> set bs"
proof -
  from those_map_Some [OF assms] have m: "map Some idx = map (list_index bs) used" .
  then have len: "length idx = length used" by (metis length_map)
  have nth: "list_index bs (used ! k) = Some (idx ! k)" if "k < length used" for k
    using m that len by (metis nth_map)
  have "set idx = {i. \<exists>b\<in>set used. list_index bs b = Some i}"
  proof -
    have "Some ` set idx = list_index bs ` set used" using m by (metis set_map)
    then show ?thesis by (auto simp: image_iff) (metis imageI image_iff option.inject)+
  qed
  moreover have "set used \<subseteq> set bs"
  proof
    fix b assume "b \<in> set used"
    then obtain k where "k < length used" "used ! k = b" by (auto simp: in_set_conv_nth)
    with nth have "list_index bs b = Some (idx ! k)" by auto
    then show "b \<in> set bs" by (metis list_index_Some nth_mem)
  qed
  ultimately show ?thesis using len nth by simp
qed

lemma positions_distinct:
  assumes "those (map (list_index bs) used) = Some idx" and "distinct used"
  shows "distinct idx"
proof -
  from positions_facts [OF assms(1)] have len: "length idx = length used"
    and nth: "\<forall>k < length used. list_index bs (used ! k) = Some (idx ! k)"
    by simp_all
  show ?thesis
    unfolding distinct_conv_nth
  proof (intro allI impI)
    fix i j assume ij: "i < length idx" "j < length idx" "i \<noteq> j"
    show "idx ! i \<noteq> idx ! j"
    proof
      assume eq: "idx ! i = idx ! j"
      from ij len nth have "list_index bs (used ! i) = Some (idx ! i)"
        "list_index bs (used ! j) = Some (idx ! j)" by auto
      with eq have "used ! i = used ! j" by (metis list_index_Some)
      with assms(2) ij len show False by (simp add: distinct_conv_nth)
    qed
  qed
qed

lemma list_index_mem: "x \<in> set xs \<Longrightarrow> \<exists>i. list_index xs x = Some i"
  by (induction xs) auto

lemma list_index_default_bits:
  assumes "list_index (default_bits m) b = Some i"
  shows "index b ! 0 = i"
proof -
  from list_index_Some [OF assms] have "i < m" "default_bits m ! i = b"
    by (simp_all add: default_bits_def)
  then have "b = \<lparr>reg_name = ''c'', index = [i]\<rparr>"
    by (simp add: default_bits_def)
  then show ?thesis by simp
qed

lemma default_register_positions:
  assumes "those (map (list_index (default_bits m)) used) = Some idx"
  shows "idx = map (\<lambda>b. index b ! 0) used"
proof (rule nth_equalityI)
  from positions_facts [OF assms] have len: "length idx = length used"
    and nth: "\<forall>k < length used. list_index (default_bits m) (used ! k) = Some (idx ! k)"
    by simp_all
  from len show "length idx = length (map (\<lambda>b. index b ! 0) used)" by simp
  fix k assume "k < length idx"
  with len nth have k: "k < length used"
    and "list_index (default_bits m) (used ! k) = Some (idx ! k)" by simp_all
  from this(2) have "index (used ! k) ! 0 = idx ! k" by (rule list_index_default_bits)
  with k show "idx ! k = map (\<lambda>b. index b ! 0) used ! k" by simp
qed

lemma default_register_columns:
  assumes b: "bits (circuit_as_translated env kw circuit) = default_bits m"
    and s: "set (used_bits env kw circuit) \<subseteq> set (bits (circuit_as_translated env kw circuit))"
    and c: "set cols = {i. \<exists>b \<in> set (used_bits env kw circuit).
                list_index (bits (circuit_as_translated env kw circuit)) b = Some i}"
    and o: "sorted cols" "distinct cols"
  shows "cols = sorted_list_of_set ((\<lambda>b. index b ! 0) ` set (used_bits env kw circuit))"
proof -
  have "set cols = (\<lambda>b. index b ! 0) ` set (used_bits env kw circuit)"
  proof (intro set_eqI iffI)
    fix i assume "i \<in> set cols"
    with c obtain x where x: "x \<in> set (used_bits env kw circuit)"
      "list_index (bits (circuit_as_translated env kw circuit)) x = Some i" by auto
    from x(2) [unfolded b] have "index x ! 0 = i" by (rule list_index_default_bits)
    then have "i = index x ! 0" by (rule sym)
    then show "i \<in> (\<lambda>b. index b ! 0) ` set (used_bits env kw circuit)"
      using x(1) by (rule image_eqI)
  next
    fix i assume "i \<in> (\<lambda>b. index b ! 0) ` set (used_bits env kw circuit)"
    then obtain x where x: "x \<in> set (used_bits env kw circuit)" "i = index x ! 0" by auto
    from x(1) s have "x \<in> set (bits (circuit_as_translated env kw circuit))"
      by (rule subsetD [rotated])
    from list_index_mem [OF this] obtain j where
      j: "list_index (bits (circuit_as_translated env kw circuit)) x = Some j" ..
    from j [unfolded b] have "index x ! 0 = j" by (rule list_index_default_bits)
    with x(2) have "j = i" by simp
    with j have "list_index (bits (circuit_as_translated env kw circuit)) x = Some i"
      by simp
    with x(1) have "i \<in> {i. \<exists>b \<in> set (used_bits env kw circuit).
                list_index (bits (circuit_as_translated env kw circuit)) b = Some i}"
      by blast
    then show "i \<in> set cols" by (simp only: c)
  qed
  with o show ?thesis
    by (metis sorted_list_of_set.idem_if_sorted_distinct)
qed

section \<open>Facts about the methods of the shot-based backend\<close>

lemma circuit_status_has_result: "circuit_status s h = Inr COMPLETED \<longleftrightarrow> has_result s h"
  by (auto simp: circuit_status_def has_result_def split: option.splits)

lemma get_result_cached:
  assumes "cache s h = Some entry" and "result entry = Some r"
  shows "get_result env s h = (Inr r, s)"
  using assms by (simp add: get_result_def Backend_get_result_def)

lemma get_result_Inr_cached:
  assumes "get_result env s h = (Inr r, s1)"
  shows "\<exists>entry. cache s1 h = Some entry \<and> result entry = Some r"
  using assms
  by (auto simp: get_result_def Backend_get_result_def Let_def
      split: option.splits sum.splits error.splits)

lemma get_result_Inl:
  "get_result env s h = (Inl e, s1) \<Longrightarrow> cache s1 = cache s \<and> uuids_drawn s1 = uuids_drawn s"
  by (auto simp: get_result_def Backend_get_result_def Let_def
      split: option.splits sum.splits error.splits)

lemma get_result_Inr:
  "get_result env s h = (Inr r, s1) \<Longrightarrow>
     uuids_drawn s1 = uuids_drawn s \<and> cache s h \<noteq> None
     \<and> (\<exists>e. cache s1 h = Some e \<and> result e = Some r)
     \<and> (\<forall>h'. h' \<noteq> h \<longrightarrow> cache s1 h' = cache s h')"
  by (auto simp: get_result_def Backend_get_result_def Let_def
      split: option.splits sum.splits error.splits)

lemma get_result_fetch:
  assumes "cache s h = Some e" and "result e = None" and "get_result env s h = (Inr res, s2)"
  shows "\<exists>raw. qam_get_result_ro env (handle e) = Some raw
    \<and> list_all (\<lambda>i. i < n_cols raw) (bit_indices e)
    \<and> shots res = Some (map (\<lambda>row. map (\<lambda>i. row ! i) (bit_indices e)) (rows raw))
    \<and> fetched s2 = fetched s @ [handle e]"
  using assms
  by (auto simp: get_result_def Backend_get_result_def take_columns_def Let_def
      split: option.splits if_splits)

lemma submit_circuit_Inr:
  assumes "submit_circuit env kw s circuit n = (Inr h, s1)"
  shows "\<exists>idx. those (map (list_index (bits (circuit_as_translated env kw circuit)))
              (snd (tk_to_pyquil env (circuit_as_translated env kw circuit)))) = Some idx
        \<and> h = ResultHandle (uuid4 env (uuids_drawn s))
                (json_dumps env (if postprocess kw then Some (snd (prepare_circuit env circuit)) else None))
        \<and> s1 = s\<lparr>cache := (cache s)(h \<mapsto>
                   \<lparr>handle = qam_execute env (native_quil_to_executable env
                        (wrap_in_numshots_loop env
                           (fst (tk_to_pyquil env (circuit_as_translated env kw circuit))) n))
                        (seed kw) (jobs_run s),
                    bit_indices = sort idx,
                    result = (if n_gates_of_type (circuit_as_submitted env kw circuit) Measure = 0
                       then Some (empty_result env (circuit_as_submitted env kw circuit) n) else None)\<rparr>),
                 uuids_drawn := Suc (uuids_drawn s), jobs_run := Suc (jobs_run s)\<rparr>"
  using assms
  by (auto simp: submit_circuit_def Let_def split: option.splits)

lemma submit_circuit_Inl:
  assumes "submit_circuit env kw s circuit n = (Inl e, s1)"
  shows "s1 = s"
  using assms
  by (auto simp: submit_circuit_def Let_def split: option.splits)

lemma submit_circuit_fetched:
  "submit_circuit env kw s circuit n = (r, s1) \<Longrightarrow> fetched s1 = fetched s"
  by (cases r) (auto dest: submit_circuit_Inl submit_circuit_Inr)

lemma submit_all_fetched:
  "submit_all env kw s cns = (r, s1) \<Longrightarrow> fetched s1 = fetched s"
proof (induction cns arbitrary: s r s1)
  case Nil
  then show ?case by simp
next
  case (Cons cn cns)
  obtain c n where cn: "cn = (c, n)" by (cases cn)
  obtain r0 s0 where r0: "submit_circuit env kw s c n = (r0, s0)" by (cases "submit_circuit env kw s c n")
  show ?case
  proof (cases r0)
    case (Inl e)
    with Cons.prems cn r0 show ?thesis by (auto dest: submit_circuit_fetched)
  next
    case (Inr h)
    obtain r2 s2 where r2: "submit_all env kw s0 cns = (r2, s2)" by (cases "submit_all env kw s0 cns")
    from Cons.IH [OF r2] have "fetched s2 = fetched s0" .
    moreover from r0 have "fetched s0 = fetched s" by (rule submit_circuit_fetched)
    moreover from Cons.prems cn r0 Inr r2 have "s1 = s2" by (auto split: sum.splits)
    ultimately show ?thesis by simp
  qed
qed

lemma submit_all_length:
  "submit_all env kw s cns = (Inr hs, s1) \<Longrightarrow> length hs = length cns"
proof (induction cns arbitrary: s hs s1)
  case Nil
  then show ?case by simp
next
  case (Cons cn cns)
  obtain c n where cn: "cn = (c, n)" by (cases cn)
  from Cons.prems cn obtain h s0 hs0 where
    "submit_circuit env kw s c n = (Inr h, s0)" "submit_all env kw s0 cns = (Inr hs0, s1)" "hs = h # hs0"
    by (auto split: prod.splits sum.splits)
  with Cons.IH show ?case by auto
qed

lemma submit_all_other:
  "submit_all env kw s cns = (Inr hs, s1) \<Longrightarrow> h \<notin> set hs \<Longrightarrow> cache s1 h = cache s h"
proof (induction cns arbitrary: s hs s1)
  case Nil
  then show ?case by simp
next
  case (Cons cn cns)
  obtain c n where cn: "cn = (c, n)" by (cases cn)
  from Cons.prems cn obtain h0 s0 hs0 where
    a: "submit_circuit env kw s c n = (Inr h0, s0)" and b: "submit_all env kw s0 cns = (Inr hs0, s1)"
    and c: "hs = h0 # hs0"
    by (auto split: prod.splits sum.splits)
  from Cons.prems c have "h \<noteq> h0" "h \<notin> set hs0" by auto
  from Cons.IH [OF b this(2)] have "cache s1 h = cache s0 h" .
  moreover from submit_circuit_Inr [OF a] \<open>h \<noteq> h0\<close> have "cache s0 h = cache s h" by auto
  ultimately show ?case by simp
qed

lemma submit_all_entry:
  "submit_all env kw s cns = (Inr hs, s1) \<Longrightarrow> i < length hs \<Longrightarrow> hs ! i \<notin> set (drop (Suc i) hs)
    \<Longrightarrow> \<exists>e. cache s1 (hs ! i) = Some e \<and> result e = entry_result env kw (fst (cns ! i)) (snd (cns ! i))"
proof (induction cns arbitrary: s hs s1 i)
  case Nil
  then show ?case by simp
next
  case (Cons cn cns)
  obtain c n where cn: "cn = (c, n)" by (cases cn)
  from Cons.prems cn obtain h0 s0 hs0 where
    a: "submit_circuit env kw s c n = (Inr h0, s0)" and b: "submit_all env kw s0 cns = (Inr hs0, s1)"
    and c: "hs = h0 # hs0"
    by (auto split: prod.splits sum.splits)
  show ?case
  proof (cases i)
    case 0
    with Cons.prems c have "h0 \<notin> set hs0" by simp
    from submit_all_other [OF b this] have "cache s1 h0 = cache s0 h0" .
    with submit_circuit_Inr [OF a] 0 c cn show ?thesis
      by (auto simp: entry_result_def)
  next
    case (Suc j)
    with Cons.prems c have "j < length hs0" "hs0 ! j \<notin> set (drop (Suc j) hs0)" by auto
    from Cons.IH [OF b this] Suc c show ?thesis by simp
  qed
qed

lemma submit_circuit_uuid:
  assumes "submit_circuit env kw s c n = (r, s1)"
  shows "uuids_drawn s \<le> uuids_drawn s1
    \<and> (\<forall>h. cache s1 h \<noteq> cache s h \<longrightarrow>
          (\<exists>k js. uuids_drawn s \<le> k \<and> k < uuids_drawn s1 \<and> h = ResultHandle (uuid4 env k) js))"
proof (cases r)
  case (Inl e)
  with assms have "s1 = s" by (auto dest: submit_circuit_Inl)
  then show ?thesis by simp
next
  case (Inr h0)
  with assms submit_circuit_Inr [of env kw s c n h0 s1] obtain js e where
    h0: "h0 = ResultHandle (uuid4 env (uuids_drawn s)) js"
    and s1: "cache s1 = (cache s)(h0 \<mapsto> e)" "uuids_drawn s1 = Suc (uuids_drawn s)"
    by auto
  show ?thesis
  proof (intro conjI allI impI)
    show "uuids_drawn s \<le> uuids_drawn s1" using s1 by simp
  next
    fix h assume "cache s1 h \<noteq> cache s h"
    with s1 have "h = h0" by (auto split: if_splits)
    with h0 s1 show "\<exists>k js. uuids_drawn s \<le> k \<and> k < uuids_drawn s1 \<and> h = ResultHandle (uuid4 env k) js"
      by auto
  qed
qed

lemma submit_all_uuid:
  "submit_all env kw s cns = (r, s1) \<Longrightarrow>
     uuids_drawn s \<le> uuids_drawn s1
     \<and> (\<forall>h. cache s1 h \<noteq> cache s h \<longrightarrow>
          (\<exists>k js. uuids_drawn s \<le> k \<and> k < uuids_drawn s1 \<and> h = ResultHandle (uuid4 env k) js))"
proof (induction cns arbitrary: s r s1)
  case Nil
  then show ?case by simp
next
  case (Cons cn cns)
  obtain c n where cn: "cn = (c, n)" by (cases cn)
  obtain r0 s0 where r0: "submit_circuit env kw s c n = (r0, s0)"
    by (cases "submit_circuit env kw s c n")
  note step = submit_circuit_uuid [OF r0]
  show ?case
  proof (cases r0)
    case (Inl e)
    with Cons.prems cn r0 have "s1 = s0" by simp
    with step show ?thesis by simp
  next
    case (Inr h0)
    obtain r2 s2 where r2: "submit_all env kw s0 cns = (r2, s2)"
      by (cases "submit_all env kw s0 cns")
    from Cons.prems cn r0 Inr r2 have s12: "s1 = s2" by (auto split: sum.splits)
    note rest = Cons.IH [OF r2]
    show ?thesis
    proof (intro conjI allI impI)
      show "uuids_drawn s \<le> uuids_drawn s1" using step rest s12 by simp
    next
      fix h assume ne: "cache s1 h \<noteq> cache s h"
      show "\<exists>k js. uuids_drawn s \<le> k \<and> k < uuids_drawn s1 \<and> h = ResultHandle (uuid4 env k) js"
      proof (cases "cache s2 h = cache s0 h")
        case True
        with ne s12 have "cache s0 h \<noteq> cache s h" by simp
        with step obtain k js where "uuids_drawn s \<le> k" "k < uuids_drawn s0"
          "h = ResultHandle (uuid4 env k) js" by blast
        moreover from rest s12 have "uuids_drawn s0 \<le> uuids_drawn s1" by simp
        ultimately show ?thesis by (intro exI [of _ k] exI [of _ js]) simp
      next
        case False
        with rest obtain k js where "uuids_drawn s0 \<le> k" "k < uuids_drawn s2"
          "h = ResultHandle (uuid4 env k) js" by blast
        moreover from step have "uuids_drawn s \<le> uuids_drawn s0" by simp
        ultimately show ?thesis using s12 by (intro exI [of _ k] exI [of _ js]) simp
      qed
    qed
  qed
qed

lemma submit_all_handles:
  "submit_all env kw s cns = (Inr hs, s1) \<Longrightarrow> i < length hs \<Longrightarrow>
     \<exists>js. hs ! i = ResultHandle (uuid4 env (uuids_drawn s + i)) js"
proof (induction cns arbitrary: s hs s1 i)
  case Nil
  then show ?case by simp
next
  case (Cons cn cns)
  obtain c n where cn: "cn = (c, n)" by (cases cn)
  from Cons.prems cn obtain h0 s0 hs0 where
    a: "submit_circuit env kw s c n = (Inr h0, s0)" and b: "submit_all env kw s0 cns = (Inr hs0, s1)"
    and c: "hs = h0 # hs0"
    by (auto split: prod.splits sum.splits)
  from submit_circuit_Inr [OF a] obtain js where
    h0: "h0 = ResultHandle (uuid4 env (uuids_drawn s)) js" and u: "uuids_drawn s0 = Suc (uuids_drawn s)"
    by auto
  show ?case
  proof (cases i)
    case 0
    with c h0 show ?thesis by simp
  next
    case (Suc j)
    with Cons.prems c have "j < length hs0" by simp
    from Cons.IH [OF b this] Suc c u show ?thesis by simp
  qed
qed

lemma process_circuits_cases:
  assumes "process_circuits env s cs ns vc kw = (r, s1)"
  shows "(\<exists>e. r = Inl e \<and> s1 = s)
    \<or> (\<exists>nl. get_n_shots_as_list env ns (length cs) = Inr nl
           \<and> submit_all env kw s (zip cs nl) = (r, s1))"
  using assms by (auto simp: process_circuits_def split: sum.splits if_splits)

section \<open>Status of a handle on the shot-based backend\<close>

text \<open>
  C1. On \<^verbatim>\<open>ForestBackend\<close>, \<^verbatim>\<open>circuit_status\<close> returns \<^verbatim>\<open>COMPLETED\<close> exactly when the
  cache holds a result for the handle, raises \<^verbatim>\<open>PyQuilJobStatusUnavailable\<close> exactly
  when the cache knows the handle but holds no result for it, and raises
  \<^verbatim>\<open>CircuitNotRunError\<close> for the handle exactly when the cache does not know it. The
  three outcomes are pairwise different, and there is no fourth.
\<close>

theorem circuit_status_three_outcomes:
  "(circuit_status s h = Inr COMPLETED
      \<longleftrightarrow> (\<exists>entry r. cache s h = Some entry \<and> result entry = Some r))
   \<and> (circuit_status s h = Inl PyQuilJobStatusUnavailable
      \<longleftrightarrow> (\<exists>entry. cache s h = Some entry \<and> result entry = None))
   \<and> (circuit_status s h = Inl (CircuitNotRunError h) \<longleftrightarrow> cache s h = None)
   \<and> (circuit_status s h = Inr COMPLETED
      \<or> circuit_status s h = Inl PyQuilJobStatusUnavailable
      \<or> circuit_status s h = Inl (CircuitNotRunError h))
   \<and> (Inr COMPLETED :: ResultHandle error + StatusEnum) \<noteq> Inl PyQuilJobStatusUnavailable
   \<and> (Inr COMPLETED :: ResultHandle error + StatusEnum) \<noteq> Inl (CircuitNotRunError h)
   \<and> (Inl PyQuilJobStatusUnavailable :: ResultHandle error + StatusEnum)
        \<noteq> Inl (CircuitNotRunError h)"
  by (auto simp: circuit_status_def split: option.splits)

theorem circuit_status_three_outcomes_witness:
  "circuit_status backend0 (ResultHandle 7 ''null'') = Inr COMPLETED
   \<and> circuit_status backend0 (ResultHandle 8 ''null'') = Inl PyQuilJobStatusUnavailable
   \<and> circuit_status backend0 (ResultHandle 9 ''null'')
       = Inl (CircuitNotRunError (ResultHandle 9 ''null''))"
  using circuit_status_three_outcomes [of backend0 "ResultHandle 7 ''null''"]
    circuit_status_three_outcomes [of backend0 "ResultHandle 8 ''null''"]
    circuit_status_three_outcomes [of backend0 "ResultHandle 9 ''null''"]
  by (simp add: backend0_def)

section \<open>The placement of the routing pass\<close>

text \<open>
  C2, as stated: the routing pass is built with the placement that the level policy
  prescribes, naive at levels 0 and 1 and noise aware only at level 2. At level 0 the
  pipeline's one routing pass is built with \<^verbatim>\<open>NoiseAwarePlacement\<close>.
\<close>

theorem level0_placement_counterexample:
  "routing_placements (default_compilation_pass info0 0) = [NoiseAwareStrategy]
   \<and> routing_placements (default_compilation_pass info0 0) \<noteq> [spec_placement 0]"
  by (simp add: default_compilation_pass_def routing_placements_def passes_of_def
      rebase_pass_def spec_placement_def)

text \<open>
  C2, amended. At each of the levels 0, 1 and 2 the pipeline of \<^verbatim>\<open>ForestBackend\<close> has
  exactly one routing pass, a \<^verbatim>\<open>CXMappingPass\<close> on the device's architecture built
  with noise-aware placement over the averaged node and edge errors (with
  \<^verbatim>\<open>directed_cx=False\<close> and \<^verbatim>\<open>delay_measures=True\<close>), and right after it one
  \<^verbatim>\<open>NaivePlacementPass\<close> on the same architecture; the level changes neither.
\<close>

theorem placement_at_every_level:
  assumes "optimisation_level \<in> {0, 1, 2}"
  shows "routing_placements (default_compilation_pass info optimisation_level)
           = [NoiseAwareStrategy]
    \<and> filter places_qubits (passes_of (default_compilation_pass info optimisation_level))
        = [CXMappingPass (architecture info)
             (NoiseAwarePlacement (architecture info)
                (averaged_node_gate_errors info) (averaged_edge_gate_errors info))
             False True,
           NaivePlacementPass (architecture info)]
    \<and> (\<exists>before after.
          passes_of (default_compilation_pass info optimisation_level)
            = before
              @ [CXMappingPass (architecture info)
                   (NoiseAwarePlacement (architecture info)
                      (averaged_node_gate_errors info) (averaged_edge_gate_errors info))
                   False True,
                 NaivePlacementPass (architecture info)]
              @ after)"
proof -
  from assms consider "optimisation_level = 0" | "optimisation_level = 1"
    | "optimisation_level = 2"
    by auto
  then show ?thesis
  proof cases
    case 1
    have "\<exists>before after. passes_of (default_compilation_pass info 0)
        = before @ [CXMappingPass (architecture info)
                   (NoiseAwarePlacement (architecture info)
                      (averaged_node_gate_errors info) (averaged_edge_gate_errors info))
                   False True,
                 NaivePlacementPass (architecture info)] @ after"
      by (rule exI [of _ "[DecomposeBoxes, FlattenRegisters]"], rule exI [of _ "[rebase_pass]"])
        (simp add: default_compilation_pass_def passes_of_def)
    with 1 show ?thesis
      by (simp add: default_compilation_pass_def routing_placements_def passes_of_def
          rebase_pass_def)
  next
    case 2
    have "\<exists>before after. passes_of (default_compilation_pass info 1)
        = before @ [CXMappingPass (architecture info)
                   (NoiseAwarePlacement (architecture info)
                      (averaged_node_gate_errors info) (averaged_edge_gate_errors info))
                   False True,
                 NaivePlacementPass (architecture info)] @ after"
      by (rule exI [of _ "[DecomposeBoxes, FlattenRegisters, SynthesiseTket]"],
          rule exI [of _ "[SynthesiseTket, rebase_pass, EulerAngleReduction Rx Rz]"])
        (simp add: default_compilation_pass_def passes_of_def)
    with 2 show ?thesis
      by (simp add: default_compilation_pass_def routing_placements_def passes_of_def
          rebase_pass_def)
  next
    case 3
    have "\<exists>before after. passes_of (default_compilation_pass info 2)
        = before @ [CXMappingPass (architecture info)
                   (NoiseAwarePlacement (architecture info)
                      (averaged_node_gate_errors info) (averaged_edge_gate_errors info))
                   False True,
                 NaivePlacementPass (architecture info)] @ after"
      by (rule exI [of _ "[DecomposeBoxes, FlattenRegisters, FullPeepholeOptimise]"],
          rule exI [of _ "[KAKDecomposition False, CliffordSimp False, SynthesiseTket,
                           rebase_pass, EulerAngleReduction Rx Rz]"])
        (simp add: default_compilation_pass_def passes_of_def)
    with 3 show ?thesis
      by (simp add: default_compilation_pass_def routing_placements_def passes_of_def
          rebase_pass_def)
  qed
qed

theorem placement_at_every_level_witness:
  "(2::int) \<in> {0, 1, 2}
   \<and> routing_placements (default_compilation_pass info0 2) = [NoiseAwareStrategy]
   \<and> filter places_qubits (passes_of (default_compilation_pass info0 2))
       = [CXMappingPass [(0, 1)]
            (NoiseAwarePlacement [(0, 1)] [(0, 1 / 100), (1, 2 / 100)] [((0, 1), 5 / 100)])
            False True,
          NaivePlacementPass [(0, 1)]]"
proof -
  have h: "(2::int) \<in> {0, 1, 2}" by simp
  show ?thesis
    using h placement_at_every_level [OF h, of info0] by (simp add: info0_def)
qed

section \<open>Retrieval is idempotent\<close>

text \<open>
  C3. When the cache holds a result for a handle, \<^verbatim>\<open>get_result\<close> returns that result
  and leaves the backend as it was: nothing is appended to the log of fetches and the
  cache is not written. After any call of \<^verbatim>\<open>get_result\<close> that returned a result, a
  second call for the same handle returns the same result and changes nothing.
\<close>

theorem get_result_idempotent:
  "(cache s h = Some entry \<and> result entry = Some r \<longrightarrow>
      get_result env s h = (Inr r, s)
      \<and> fetched (snd (get_result env s h)) = fetched s
      \<and> cache (snd (get_result env s h)) = cache s)
   \<and> (get_result env s h = (Inr r, s1) \<longrightarrow>
      get_result env s1 h = (Inr r, s1)
      \<and> fetched (snd (get_result env s1 h)) = fetched s1
      \<and> cache (snd (get_result env s1 h)) = cache s1)"
proof (intro conjI impI)
  assume "cache s h = Some entry \<and> result entry = Some r"
  then have g: "get_result env s h = (Inr r, s)"
    by (simp add: get_result_cached)
  then show "get_result env s h = (Inr r, s)"
    "fetched (snd (get_result env s h)) = fetched s"
    "cache (snd (get_result env s h)) = cache s"
    by simp_all
next
  assume a: "get_result env s h = (Inr r, s1)"
  from get_result_Inr_cached [OF a] obtain e where "cache s1 h = Some e" "result e = Some r"
    by blast
  then have g: "get_result env s1 h = (Inr r, s1)"
    by (rule get_result_cached)
  then show "get_result env s1 h = (Inr r, s1)"
    "fetched (snd (get_result env s1 h)) = fetched s1"
    "cache (snd (get_result env s1 h)) = cache s1"
    by simp_all
qed

theorem get_result_idempotent_witness:
  "cache backend0 (ResultHandle 7 ''null'')
     = Some \<lparr>handle = 0, bit_indices = [0, 1], result = Some result0\<rparr>
   \<and> get_result env0 backend0 (ResultHandle 7 ''null'') = (Inr result0, backend0)
   \<and> fst (get_result env0 backend0 (ResultHandle 8 ''null''))
       = Inr \<lparr>shots = Some [[0, 1], [1, 1]], ppcirc = None, q_bits = None, state = None\<rparr>
   \<and> fetched (snd (get_result env0 backend0 (ResultHandle 8 ''null''))) = [0, 1]
   \<and> fst (get_result env0 (snd (get_result env0 backend0 (ResultHandle 8 ''null'')))
            (ResultHandle 8 ''null''))
       = Inr \<lparr>shots = Some [[0, 1], [1, 1]], ppcirc = None, q_bits = None, state = None\<rparr>
   \<and> fetched (snd (get_result env0 (snd (get_result env0 backend0 (ResultHandle 8 ''null'')))
                     (ResultHandle 8 ''null''))) = [0, 1]"
proof -
  let ?h7 = "ResultHandle 7 ''null''" and ?h8 = "ResultHandle 8 ''null''"
  let ?e7 = "\<lparr>handle = 0::nat, bit_indices = [0, 1], result = Some result0\<rparr>"
  let ?r8 = "\<lparr>shots = Some [[0, 1], [1, 1]], ppcirc = None, q_bits = None, state = None\<rparr>"
  let ?s8 = "snd (get_result env0 backend0 ?h8)"
  have c7: "cache backend0 ?h7 = Some ?e7 \<and> result ?e7 = Some result0"
    by (simp add: backend0_def)
  have f8: "fst (get_result env0 backend0 ?h8) = Inr ?r8"
    by (simp add: forest_defs backend0_def env0_def Let_def)
  have l8: "fetched ?s8 = [0, 1]"
    by (simp add: forest_defs backend0_def env0_def Let_def)
  from f8 have g8: "get_result env0 backend0 ?h8 = (Inr ?r8, ?s8)"
    by (simp add: prod_eq_iff)
  from get_result_idempotent [of backend0 ?h7 ?e7 result0 env0] c7
  have first: "get_result env0 backend0 ?h7 = (Inr result0, backend0)"
    by blast
  from get_result_idempotent [of backend0 ?h8 _ ?r8 env0 ?s8] g8
  have again: "get_result env0 ?s8 ?h8 = (Inr ?r8, ?s8)"
    by blast
  from c7 first f8 l8 again show ?thesis
    by simp
qed

section \<open>Circuits without measurements\<close>

text \<open>
  C4. When \<^verbatim>\<open>process_circuits\<close> returns its handles, pairwise different, then for
  every circuit of the batch in which it counted no \<^verbatim>\<open>Measure\<close> operation the cache
  holds the placeholder \<^verbatim>\<open>empty_result(circuit, n_shots)\<close> under the circuit's handle:
  the status of the handle is \<^verbatim>\<open>COMPLETED\<close>, \<^verbatim>\<open>get_result\<close> returns the placeholder and
  leaves the backend unchanged, and neither the submission nor the retrieval appends to
  the log of fetches.
\<close>

theorem unmeasured_result_at_submission:
  assumes p: "process_circuits env s circuits n_shots valid_check kw = (Inr hs, s1)"
    and i: "i < length hs" and d: "distinct hs"
    and m: "n_gates_of_type (circuit_as_submitted env kw (circuits ! i)) Measure = 0"
  shows "\<exists>n_shots_list.
      get_n_shots_as_list env n_shots (length circuits) = Inr n_shots_list
    \<and> has_result s1 (hs ! i)
    \<and> circuit_status s1 (hs ! i) = Inr COMPLETED
    \<and> get_result env s1 (hs ! i)
        = (Inr (empty_result env (circuit_as_submitted env kw (circuits ! i))
                  (n_shots_list ! i)), s1)
    \<and> fetched (snd (get_result env s1 (hs ! i))) = fetched s"
proof -
  from process_circuits_cases [OF p] obtain nl where
    nl: "get_n_shots_as_list env n_shots (length circuits) = Inr nl"
    and sub: "submit_all env kw s (zip circuits nl) = (Inr hs, s1)"
    by auto
  from submit_all_length [OF sub] i have iz: "i < length circuits" "i < length nl"
    by simp_all
  from d i have "hs ! i \<notin> set (drop (Suc i) hs)"
    by (rule distinct_nth_not_later)
  from submit_all_entry [OF sub i this] iz m obtain e where
    e: "cache s1 (hs ! i) = Some e"
      "result e = Some (empty_result env (circuit_as_submitted env kw (circuits ! i)) (nl ! i))"
    by (auto simp: entry_result_def)
  from e have g: "get_result env s1 (hs ! i)
      = (Inr (empty_result env (circuit_as_submitted env kw (circuits ! i)) (nl ! i)), s1)"
    by (rule get_result_cached)
  from e have "has_result s1 (hs ! i)"
    by (simp add: has_result_def)
  moreover from this have "circuit_status s1 (hs ! i) = Inr COMPLETED"
    by (simp add: circuit_status_has_result)
  moreover from g submit_all_fetched [OF sub]
  have "fetched (snd (get_result env s1 (hs ! i))) = fetched s"
    by simp
  ultimately show ?thesis
    using nl g by blast
qed

theorem unmeasured_result_at_submission_witness:
  "fst (call env0 new_backend batch0)
     = Handles (Inr [ResultHandle 1000 ''null'', ResultHandle 1001 ''null''])
   \<and> n_gates_of_type (circuit_as_submitted env0 kw0 circ_unmeasured) Measure = 0
   \<and> circuit_status (snd (call env0 new_backend batch0)) (ResultHandle 1001 ''null'')
       = Inr COMPLETED
   \<and> fst (get_result env0 (snd (call env0 new_backend batch0)) (ResultHandle 1001 ''null''))
       = Inr \<lparr>shots = Some [[0], [0]], ppcirc = None, q_bits = None, state = None\<rparr>
   \<and> fetched (snd (get_result env0 (snd (call env0 new_backend batch0))
                     (ResultHandle 1001 ''null''))) = []"
proof -
  let ?hs = "[ResultHandle 1000 ''null'', ResultHandle 1001 ''null'']"
  let ?cs = "[circ_measured, circ_unmeasured]"
  let ?p = "process_circuits env0 new_backend ?cs (Shots 2) True kw0"
  let ?s = "snd (call env0 new_backend batch0)"
  have f: "fst ?p = Inr ?hs"
    by (simp add: forest_defs input_defs Let_def)
  then have p: "?p = (Inr ?hs, snd ?p)"
    by (simp add: prod_eq_iff)
  have c: "call env0 new_backend batch0 = (Handles (fst ?p), snd ?p)"
    by (simp add: batch0_def split: prod.splits)
  then have s: "snd ?p = ?s"
    by simp
  have i: "1 < length ?hs" and d: "distinct ?hs" and h: "?hs ! 1 = ResultHandle 1001 ''null''"
    and c1: "?cs ! 1 = circ_unmeasured"
    by simp_all
  have m: "n_gates_of_type (circuit_as_submitted env0 kw0 circ_unmeasured) Measure = 0"
    by (simp add: forest_defs input_defs)
  then have m1: "n_gates_of_type (circuit_as_submitted env0 kw0 (?cs ! 1)) Measure = 0"
    by (simp only: c1)
  have n: "get_n_shots_as_list env0 (Shots 2) (length ?cs) = Inr [2, 2]"
    by (simp add: env0_def numeral_2_eq_2)
  have e: "empty_result env0 (circuit_as_submitted env0 kw0 circ_unmeasured) 2
      = \<lparr>shots = Some [[0], [0]], ppcirc = None, q_bits = None, state = None\<rparr>"
    by (simp add: forest_defs input_defs numeral_2_eq_2)
  have fn: "fetched (new_backend :: nat ForestBackend) = []"
    by (simp add: new_backend_def)
  from unmeasured_result_at_submission [OF p i d m1] obtain nl where
    nl: "get_n_shots_as_list env0 (Shots 2) (length ?cs) = Inr nl"
    and st: "circuit_status (snd ?p) (?hs ! 1) = Inr COMPLETED"
    and g: "get_result env0 (snd ?p) (?hs ! 1)
        = (Inr (empty_result env0 (circuit_as_submitted env0 kw0 (?cs ! 1)) (nl ! 1)), snd ?p)"
    and fe: "fetched (snd (get_result env0 (snd ?p) (?hs ! 1))) = fetched new_backend"
    by blast
  from nl n have "nl ! 1 = 2"
    by simp
  with g have g': "fst (get_result env0 ?s (ResultHandle 1001 ''null''))
      = Inr \<lparr>shots = Some [[0], [0]], ppcirc = None, q_bits = None, state = None\<rparr>"
    by (simp only: h c1 s e fst_conv)
  from st have st': "circuit_status ?s (ResultHandle 1001 ''null'') = Inr COMPLETED"
    by (simp only: h s)
  from fe have fe': "fetched (snd (get_result env0 ?s (ResultHandle 1001 ''null''))) = []"
    by (simp only: h s fn)
  from c f have "fst (call env0 new_backend batch0) = Handles (Inr ?hs)"
    by simp
  with m st' g' fe' show ?thesis
    by (intro conjI)
qed

section \<open>Facts about runs of the shot-based backend\<close>

lemma run_snoc:
  "run env s (cs @ [c]) =
     (case run env s cs of (tr, s1) \<Rightarrow>
        (case call env s1 c of (r, s2) \<Rightarrow> (tr @ [(c, r)], s2)))"
  by (induction cs arbitrary: s) (auto split: prod.splits)

lemma retrieved_snoc: "retrieved (tr @ [cr]) h \<longleftrightarrow> retrieved tr h \<or> is_retrieval h cr"
  by (simp add: retrieved_def)
lemma issued_snoc: "issued (tr @ [cr]) h \<longleftrightarrow> issued tr h \<or> is_issue h cr"
  by (simp add: issued_def)
lemma issued_unmeasured_snoc:
  "issued_unmeasured env (tr @ [cr]) h \<longleftrightarrow> issued_unmeasured env tr h \<or> is_unmeasured_issue env h cr"
  by (simp add: issued_unmeasured_def)

lemma inv_status:
  "run_inv env tr s \<Longrightarrow> run_inv env (tr @ [(CircuitStatus h, Status r)]) s"
  by (simp add: run_inv_def retrieved_snoc issued_snoc issued_unmeasured_snoc
      is_retrieval_def is_issue_def is_unmeasured_issue_def)

lemma inv_get_result:
  assumes inv: "run_inv env tr s" and g: "get_result env s h = (r, s1)"
  shows "run_inv env (tr @ [(GetResult h, Result r)]) s1"
proof (cases r)
  case (Inl e)
  with g have "cache s1 = cache s" "uuids_drawn s1 = uuids_drawn s"
    by (auto dest: get_result_Inl)
  with inv Inl show ?thesis
    by (simp add: run_inv_def retrieved_snoc issued_snoc issued_unmeasured_snoc
        is_retrieval_def is_issue_def is_unmeasured_issue_def known_by_uuid_def has_result_def)
next
  case (Inr res)
  with g get_result_Inr [of env s h res s1] obtain e where
    u: "uuids_drawn s1 = uuids_drawn s" and k: "cache s h \<noteq> None"
    and c: "cache s1 h = Some e" and e: "result e = Some res"
    and o: "\<forall>h'. h' \<noteq> h \<longrightarrow> cache s1 h' = cache s h'"
    by auto
  have hr: "has_result s1 h' \<longleftrightarrow> has_result s h' \<or> h' = h" for h'
    using c e o by (cases "h' = h") (auto simp: has_result_def)
  have dom: "cache s1 h' \<noteq> None \<longleftrightarrow> cache s h' \<noteq> None" for h'
    using c k o by (cases "h' = h") auto
  have ret: "retrieved (tr @ [(GetResult h, Result r)]) h' \<longleftrightarrow> retrieved tr h' \<or> h' = h" for h'
    using Inr by (auto simp: retrieved_snoc is_retrieval_def)
  have iss: "issued (tr @ [(GetResult h, Result r)]) h' \<longleftrightarrow> issued tr h'" for h'
    by (simp add: issued_snoc is_issue_def)
  have unm: "issued_unmeasured env (tr @ [(GetResult h, Result r)]) h' \<longleftrightarrow> issued_unmeasured env tr h'" for h'
    by (simp add: issued_unmeasured_snoc is_unmeasured_issue_def)
  from inv show ?thesis
    unfolding run_inv_def known_by_uuid_def hr dom ret iss unm u by blast
qed

lemma unmeasured_issue_is_issue: "is_unmeasured_issue env h cr \<Longrightarrow> is_issue h cr"
  by (auto simp: is_unmeasured_issue_def is_issue_def list_ex_iff
      split: prod.splits Call.splits Reply.splits sum.splits dest: set_zip_rightD)

lemma issued_unmeasured_issued: "issued_unmeasured env tr h \<Longrightarrow> issued tr h"
  by (auto simp: issued_unmeasured_def issued_def list_ex_iff dest: unmeasured_issue_is_issue)

lemma inv_process_failed:
  assumes inv: "run_inv env tr s" and same: "\<forall>h. cache s h \<noteq> None \<longrightarrow> cache s1 h = cache s h"
    and known: "known_by_uuid env s1"
  shows "run_inv env (tr @ [(ProcessCircuits cs ns vc kw, Handles (Inl e))]) s1"
proof -
  have hr: "has_result s h \<Longrightarrow> has_result s1 h" for h
    using same by (auto simp: has_result_def split: option.splits)
  have hr': "cache s h \<noteq> None \<Longrightarrow> has_result s1 h = has_result s h" for h
    using same by (auto simp: has_result_def split: option.splits)
  have kn: "cache s h \<noteq> None \<Longrightarrow> cache s1 h \<noteq> None" for h
    using same by auto
  from inv known show ?thesis
    unfolding run_inv_def
    by (auto simp: retrieved_snoc issued_snoc issued_unmeasured_snoc
        is_retrieval_def is_issue_def is_unmeasured_issue_def hr hr' kn)
qed

lemma inv_process:
  assumes inj: "inj (uuid4 env)" and inv: "run_inv env tr s"
    and p: "process_circuits env s cs ns vc kw = (r, s1)"
  shows "run_inv env (tr @ [(ProcessCircuits cs ns vc kw, Handles r)]) s1"
proof -
  from inv have known: "known_by_uuid env s" by (simp add: run_inv_def)
  from process_circuits_cases [OF p] show ?thesis
  proof (elim disjE exE conjE)
    fix e assume "r = Inl e" "s1 = s"
    with inv known show ?thesis by (auto intro: inv_process_failed)
  next
    fix nl assume nl: "get_n_shots_as_list env ns (length cs) = Inr nl"
      and sub: "submit_all env kw s (zip cs nl) = (r, s1)"
    note fr = submit_all_uuid [OF sub]
    have same: "cache s1 h = cache s h" if "cache s h \<noteq> None" for h
    proof (rule ccontr)
      assume "cache s1 h \<noteq> cache s h"
      with fr obtain k js where k: "uuids_drawn s \<le> k" "h = ResultHandle (uuid4 env k) js" by blast
      from known that obtain k' js' where k': "k' < uuids_drawn s" "h = ResultHandle (uuid4 env k') js'"
        by (auto simp: known_by_uuid_def)
      from k k' have "uuid4 env k = uuid4 env k'" by simp
      with inj have "k = k'" by (simp add: inj_eq)
      with k k' show False by simp
    qed
    have known1: "known_by_uuid env s1"
      unfolding known_by_uuid_def
    proof (intro allI impI)
      fix h assume h: "cache s1 h \<noteq> None"
      show "\<exists>k js. k < uuids_drawn s1 \<and> h = ResultHandle (uuid4 env k) js"
      proof (cases "cache s1 h = cache s h")
        case True
        with h known obtain k js where "k < uuids_drawn s" "h = ResultHandle (uuid4 env k) js"
          by (auto simp: known_by_uuid_def)
        with fr show ?thesis by (intro exI [of _ k] exI [of _ js]) simp
      next
        case False
        with fr show ?thesis by blast
      qed
    qed
    show ?thesis
    proof (cases r)
      case (Inl e)
      with inv same known1 show ?thesis by (auto intro: inv_process_failed)
    next
      case (Inr hs)
      with sub have sub': "submit_all env kw s (zip cs nl) = (Inr hs, s1)" by simp
      have len: "length hs = length (zip cs nl)" using sub' by (rule submit_all_length)
      have fresh: "cache s h = None" if "h \<in> set hs" for h
      proof (rule ccontr)
        assume "cache s h \<noteq> None"
        with known obtain k' js' where k': "k' < uuids_drawn s" "h = ResultHandle (uuid4 env k') js'"
          by (auto simp: known_by_uuid_def)
        from that obtain i where i: "i < length hs" "hs ! i = h" by (auto simp: in_set_conv_nth)
        from submit_all_handles [OF sub' i(1)] i(2) obtain js
          where "h = ResultHandle (uuid4 env (uuids_drawn s + i)) js" by auto
        with k' have "uuid4 env (uuids_drawn s + i) = uuid4 env k'" by simp
        with inj have "uuids_drawn s + i = k'" by (simp add: inj_eq)
        with k' show False by simp
      qed
      have dist: "distinct hs"
        unfolding distinct_conv_nth
      proof (intro allI impI)
        fix i j assume ij: "i < length hs" "j < length hs" "i \<noteq> j"
        from submit_all_handles [OF sub' ij(1)] submit_all_handles [OF sub' ij(2)]
        obtain js js' where "hs ! i = ResultHandle (uuid4 env (uuids_drawn s + i)) js"
          "hs ! j = ResultHandle (uuid4 env (uuids_drawn s + j)) js'" by blast
        moreover from inj ij(3) have "uuid4 env (uuids_drawn s + i) \<noteq> uuid4 env (uuids_drawn s + j)"
          by (simp add: inj_eq)
        ultimately show "hs ! i \<noteq> hs ! j" by simp
      qed
      have new: "has_result s1 h \<longleftrightarrow>
          list_ex (\<lambda>(circuit, h'). h' = h
                     \<and> n_gates_of_type (circuit_as_submitted env kw circuit) Measure = 0)
            (zip cs hs)" and new_known: "cache s1 h \<noteq> None"
        if "h \<in> set hs" for h
      proof -
        from that obtain i where i: "i < length hs" "hs ! i = h" by (auto simp: in_set_conv_nth)
        from dist i(1) have "hs ! i \<notin> set (drop (Suc i) hs)" by (rule distinct_nth_not_later)
        from submit_all_entry [OF sub' i(1) this] i len obtain e where
          e: "cache s1 h = Some e" "result e = entry_result env kw (cs ! i) (nl ! i)"
          by auto
        then show "cache s1 h \<noteq> None" by simp
        from i len have ics: "i < length cs" by simp
        have "has_result s1 h \<longleftrightarrow> n_gates_of_type (circuit_as_submitted env kw (cs ! i)) Measure = 0"
          using e by (simp add: has_result_def entry_result_def)
        also have "\<dots> \<longleftrightarrow> list_ex (\<lambda>(circuit, h'). h' = h
                     \<and> n_gates_of_type (circuit_as_submitted env kw circuit) Measure = 0)
            (zip cs hs)"
        proof
          assume m: "n_gates_of_type (circuit_as_submitted env kw (cs ! i)) Measure = 0"
          from i ics have "(cs ! i, h) \<in> set (zip cs hs)"
            by (auto simp: set_zip)
          with m show "list_ex (\<lambda>(circuit, h'). h' = h
                     \<and> n_gates_of_type (circuit_as_submitted env kw circuit) Measure = 0)
            (zip cs hs)" by (auto simp: list_ex_iff)
        next
          assume "list_ex (\<lambda>(circuit, h'). h' = h
                     \<and> n_gates_of_type (circuit_as_submitted env kw circuit) Measure = 0)
            (zip cs hs)"
          then obtain j where j: "j < length cs" "j < length hs" "hs ! j = h"
            "n_gates_of_type (circuit_as_submitted env kw (cs ! j)) Measure = 0"
            by (auto simp: list_ex_iff set_zip)
          from dist j(2,3) i have "j = i" by (auto simp: distinct_conv_nth)
          with j show "n_gates_of_type (circuit_as_submitted env kw (cs ! i)) Measure = 0" by simp
        qed
        finally show "has_result s1 h \<longleftrightarrow> list_ex (\<lambda>(circuit, h'). h' = h
                     \<and> n_gates_of_type (circuit_as_submitted env kw circuit) Measure = 0)
            (zip cs hs)" .
      qed
      let ?tr = "tr @ [(ProcessCircuits cs ns vc kw, Handles r)]"
      have ret: "retrieved ?tr h \<longleftrightarrow> retrieved tr h" for h
        by (simp add: retrieved_snoc is_retrieval_def)
      have iss: "issued ?tr h \<longleftrightarrow> issued tr h \<or> h \<in> set hs" for h
        using Inr by (simp add: issued_snoc is_issue_def)
      have unm: "issued_unmeasured env ?tr h \<longleftrightarrow> issued_unmeasured env tr h
          \<or> list_ex (\<lambda>(circuit, h'). h' = h
                     \<and> n_gates_of_type (circuit_as_submitted env kw circuit) Measure = 0)
            (zip cs hs)" for h
        using Inr by (simp add: issued_unmeasured_snoc is_unmeasured_issue_def)
      have old_not_new: "\<not> list_ex (\<lambda>(circuit, h'). h' = h
                     \<and> n_gates_of_type (circuit_as_submitted env kw circuit) Measure = 0)
            (zip cs hs)" if "cache s h \<noteq> None" for h
        using that fresh [of h] by (auto simp: list_ex_iff dest: set_zip_rightD)
      from inv have i2: "retrieved tr h \<Longrightarrow> has_result s h"
        and i3: "issued tr h \<Longrightarrow> cache s h \<noteq> None"
        and i4: "issued tr h \<Longrightarrow> has_result s h \<longleftrightarrow> retrieved tr h \<or> issued_unmeasured env tr h" for h
        by (auto simp: run_inv_def)
      have hr_known: "has_result s h \<Longrightarrow> cache s h \<noteq> None" for h
        by (auto simp: has_result_def split: option.splits)
      have hr_same: "cache s h \<noteq> None \<Longrightarrow> has_result s1 h = has_result s h" for h
        using same [of h] by (simp add: has_result_def)
      have p2: "has_result s1 h" if "retrieved ?tr h" for h
      proof -
        from that have "has_result s h" using ret i2 by simp
        then show "has_result s1 h" using hr_known hr_same by simp
      qed
      have p3: "cache s1 h \<noteq> None
          \<and> (has_result s1 h \<longleftrightarrow> retrieved ?tr h \<or> issued_unmeasured env ?tr h)"
        if h: "issued ?tr h" for h
        proof (cases "issued tr h")
          case True
          then have k: "cache s h \<noteq> None" by (rule i3)
          with same [OF k] hr_same [OF k] i4 [OF True] old_not_new [OF k] show ?thesis
            by (simp add: ret unm)
        next
          case False
          with h iss have hin: "h \<in> set hs" by simp
          then have "cache s h = None" by (rule fresh)
          then have "\<not> has_result s h" using hr_known by blast
          then have "\<not> retrieved tr h" using i2 by blast
          moreover from False have "\<not> issued_unmeasured env tr h"
            using issued_unmeasured_issued by blast
          ultimately show ?thesis using new [OF hin] new_known [OF hin]
            by (simp add: ret unm)
        qed
      from known1 p2 p3 show ?thesis
        unfolding run_inv_def by blast
    qed
  qed
qed

lemma inv_call:
  assumes "inj (uuid4 env)" and "run_inv env tr s" and "call env s c = (r, s1)"
  shows "run_inv env (tr @ [(c, r)]) s1"
proof (cases c)
  case (ProcessCircuits cs ns vc kw)
  with assms obtain r0 where "process_circuits env s cs ns vc kw = (r0, s1)" "r = Handles r0"
    by (auto split: prod.splits)
  with assms ProcessCircuits show ?thesis by (auto intro: inv_process)
next
  case (GetResult h)
  with assms obtain r0 where "get_result env s h = (r0, s1)" "r = Result r0"
    by (auto split: prod.splits)
  with assms GetResult show ?thesis by (auto intro: inv_get_result)
next
  case (CircuitStatus h)
  with assms show ?thesis by (auto intro: inv_status)
qed

lemma inv_new: "run_inv env [] new_backend"
  by (simp add: run_inv_def known_by_uuid_def new_backend_def retrieved_def issued_def)

lemma inv_run:
  "inj (uuid4 env) \<Longrightarrow> run env new_backend calls = (tr, s) \<Longrightarrow> run_inv env tr s"
proof (induction calls arbitrary: tr s rule: rev_induct)
  case Nil
  then show ?case by (simp add: inv_new)
next
  case (snoc c calls)
  obtain tr0 s0 where r0: "run env new_backend calls = (tr0, s0)"
    by (cases "run env new_backend calls")
  obtain r s1 where c: "call env s0 c = (r, s1)" by (cases "call env s0 c")
  from snoc.prems(2) r0 c have "tr = tr0 @ [(c, r)]" "s = s1"
    by (simp_all add: run_snoc)
  with inv_call [OF snoc.prems(1) snoc.IH [OF snoc.prems(1) r0] c] show ?case by simp
qed

section \<open>Facts about the state-vector backend\<close>

lemma state_submit_circuit_Inr:
  assumes "state_submit_circuit env s circuit = (Inr h, s1)"
  shows "\<exists>res_qubits.
       h = StateHandle (uuid4 env (state_uuids_drawn s))
     \<and> s1 = s\<lparr>state_uuids_drawn := Suc (state_uuids_drawn s),
              state_cache := (state_cache s)(h \<mapsto> \<lparr>state_result =
                 \<lparr>shots = None, ppcirc = None, q_bits = Some res_qubits,
                  state = Some (adjust_phase (phase circuit)
                     (wavefunction_amplitudes env (state_program env circuit)))\<rparr>\<rparr>)\<rparr>"
  using assms
  by (auto simp: state_submit_circuit_def state_program_def Let_def
      dest!: map_filter_those split: option.splits)

lemma state_submit_circuit_known:
  assumes "state_submit_circuit env s circuit = (r, s1)"
  shows "state_cache s h \<noteq> None \<Longrightarrow> state_cache s1 h \<noteq> None"
  using assms
  by (auto simp: state_submit_circuit_def Let_def split: option.splits if_splits)

lemma state_submit_all_known:
  "state_submit_all env s cs = (r, s1) \<Longrightarrow> state_cache s h \<noteq> None \<Longrightarrow> state_cache s1 h \<noteq> None"
proof (induction cs arbitrary: s r s1)
  case Nil
  then show ?case by simp
next
  case (Cons c cs)
  obtain r0 s0 where r0: "state_submit_circuit env s c = (r0, s0)"
    by (cases "state_submit_circuit env s c")
  from state_submit_circuit_known [OF r0 Cons.prems(2)] have k0: "state_cache s0 h \<noteq> None" .
  show ?case
  proof (cases r0)
    case (Inl e)
    with Cons.prems r0 have "s1 = s0" by simp
    with k0 show ?thesis by simp
  next
    case (Inr h0)
    obtain r2 s2 where r2: "state_submit_all env s0 cs = (r2, s2)"
      by (cases "state_submit_all env s0 cs")
    from Cons.prems r0 Inr r2 have "s1 = s2" by (auto split: sum.splits)
    with Cons.IH [OF r2 k0] show ?thesis by simp
  qed
qed

lemma state_submit_all_issued:
  "state_submit_all env s cs = (Inr hs, s1) \<Longrightarrow> h \<in> set hs \<Longrightarrow> state_cache s1 h \<noteq> None"
proof (induction cs arbitrary: s hs s1)
  case Nil
  then show ?case by simp
next
  case (Cons c cs)
  from Cons.prems obtain h0 s0 hs0 where
    a: "state_submit_circuit env s c = (Inr h0, s0)" and b: "state_submit_all env s0 cs = (Inr hs0, s1)"
    and c: "hs = h0 # hs0"
    by (auto split: prod.splits sum.splits)
  from Cons.prems c consider "h = h0" | "h \<in> set hs0" by auto
  then show ?case
  proof cases
    case 1
    from state_submit_circuit_Inr [OF a] have "state_cache s0 h0 \<noteq> None" by auto
    with 1 state_submit_all_known [OF b] show ?thesis by simp
  next
    case 2
    from Cons.IH [OF b 2] show ?thesis .
  qed
qed

lemma state_submit_all_other:
  "state_submit_all env s cs = (Inr hs, s1) \<Longrightarrow> h \<notin> set hs \<Longrightarrow> state_cache s1 h = state_cache s h"
proof (induction cs arbitrary: s hs s1)
  case Nil
  then show ?case by simp
next
  case (Cons c cs)
  from Cons.prems obtain h0 s0 hs0 where
    a: "state_submit_circuit env s c = (Inr h0, s0)" and b: "state_submit_all env s0 cs = (Inr hs0, s1)"
    and c: "hs = h0 # hs0"
    by (auto split: prod.splits sum.splits)
  from Cons.prems c have "h \<noteq> h0" "h \<notin> set hs0" by auto
  from Cons.IH [OF b this(2)] have "state_cache s1 h = state_cache s0 h" .
  moreover from state_submit_circuit_Inr [OF a] \<open>h \<noteq> h0\<close> have "state_cache s0 h = state_cache s h"
    by auto
  ultimately show ?case by simp
qed

lemma state_submit_all_entry:
  "state_submit_all env s cs = (Inr hs, s1) \<Longrightarrow> i < length hs \<Longrightarrow> hs ! i \<notin> set (drop (Suc i) hs)
    \<Longrightarrow> \<exists>e. state_cache s1 (hs ! i) = Some e
          \<and> state (state_result e) = Some (adjust_phase (phase (cs ! i))
               (wavefunction_amplitudes env (state_program env (cs ! i))))"
proof (induction cs arbitrary: s hs s1 i)
  case Nil
  then show ?case by simp
next
  case (Cons c cs)
  from Cons.prems obtain h0 s0 hs0 where
    a: "state_submit_circuit env s c = (Inr h0, s0)" and b: "state_submit_all env s0 cs = (Inr hs0, s1)"
    and c: "hs = h0 # hs0"
    by (auto split: prod.splits sum.splits)
  show ?case
  proof (cases i)
    case 0
    with Cons.prems c have "h0 \<notin> set hs0" by simp
    from state_submit_all_other [OF b this] have "state_cache s1 h0 = state_cache s0 h0" .
    with state_submit_circuit_Inr [OF a] 0 c show ?thesis by auto
  next
    case (Suc j)
    with Cons.prems c have "j < length hs0" "hs0 ! j \<notin> set (drop (Suc j) hs0)" by auto
    from Cons.IH [OF b this] Suc c show ?thesis by simp
  qed
qed

lemma state_run_snoc:
  "state_run env s (cs @ [c]) =
     (case state_run env s cs of (tr, s1) \<Rightarrow>
        (case state_call env s1 c of (r, s2) \<Rightarrow> (tr @ [(c, r)], s2)))"
  by (induction cs arbitrary: s) (auto split: prod.splits)

lemma state_run_issued_known:
  "state_run env new_state_backend calls = (tr, s) \<Longrightarrow> state_issued tr h \<Longrightarrow> state_cache s h \<noteq> None"
proof (induction calls arbitrary: tr s rule: rev_induct)
  case Nil
  then show ?case by (simp add: state_issued_def)
next
  case (snoc c calls)
  obtain tr0 s0 where r0: "state_run env new_state_backend calls = (tr0, s0)"
    by (cases "state_run env new_state_backend calls")
  obtain r s1 where c: "state_call env s0 c = (r, s1)" by (cases "state_call env s0 c")
  from snoc.prems(1) r0 c have tr: "tr = tr0 @ [(c, r)]" and s: "s = s1"
    by (simp_all add: state_run_snoc)
  have old: "state_cache s1 h \<noteq> None" if "state_cache s0 h \<noteq> None"
  proof (cases c)
    case (StateProcessCircuits cs vc)
    with c that show ?thesis
      by (auto simp: state_process_circuits_def split: prod.splits if_splits
          dest: state_submit_all_known)
  next
    case (StateCircuitStatus h')
    with c that show ?thesis by auto
  qed
  from snoc.prems(2) tr consider "state_issued tr0 h" | "is_state_issue h (c, r)"
    by (auto simp: state_issued_def)
  then show ?case
  proof cases
    case 1
    from snoc.IH [OF r0 1] old s show ?thesis by simp
  next
    case 2
    then obtain hs where r: "r = StateHandles (Inr hs)" and h: "h \<in> set hs"
      by (auto simp: is_state_issue_def split: StateReply.splits sum.splits)
    with c obtain cs vc where "c = StateProcessCircuits cs vc"
      "state_process_circuits env s0 cs vc = (Inr hs, s1)"
      by (cases c) (auto split: prod.splits)
    then have "state_submit_all env s0 cs = (Inr hs, s1)"
      by (auto simp: state_process_circuits_def split: if_splits)
    from state_submit_all_issued [OF this h] s show ?thesis by simp
  qed
qed

lemma state_submit_circuit_stored:
  assumes "state_submit_circuit env s circuit = (Inr h, s1)"
  shows "h = StateHandle (uuid4 env (state_uuids_drawn s))
    \<and> state_uuids_drawn s1 = Suc (state_uuids_drawn s)
    \<and> state_cache s1 = (state_cache s)(h \<mapsto> \<lparr>state_result = computed_result env circuit\<rparr>)"
  using assms
  by (auto simp: state_submit_circuit_def state_program_def computed_result_def Let_def
      dest!: map_filter_those split: option.splits)

lemma state_submit_circuit_Inl:
  assumes "state_submit_circuit env s circuit = (Inl e, s1)"
  shows "state_cache s1 = state_cache s \<and> state_uuids_drawn s \<le> state_uuids_drawn s1"
  using assms
  by (auto simp: state_submit_circuit_def Let_def split: option.splits)

lemma state_submit_circuit_uuid:
  assumes "state_submit_circuit env s c = (r, s1)"
  shows "state_uuids_drawn s \<le> state_uuids_drawn s1
    \<and> (\<forall>h. state_cache s1 h \<noteq> state_cache s h \<longrightarrow>
          (\<exists>k. state_uuids_drawn s \<le> k \<and> k < state_uuids_drawn s1
             \<and> h = StateHandle (uuid4 env k)))"
proof (cases r)
  case (Inl e)
  with assms state_submit_circuit_Inl [of env s c e s1] show ?thesis by simp
next
  case (Inr h0)
  with assms state_submit_circuit_stored [of env s c h0 s1] have
    h0: "h0 = StateHandle (uuid4 env (state_uuids_drawn s))"
    and u: "state_uuids_drawn s1 = Suc (state_uuids_drawn s)"
    and c: "state_cache s1 = (state_cache s)(h0 \<mapsto> \<lparr>state_result = computed_result env c\<rparr>)"
    by simp_all
  show ?thesis
  proof (intro conjI allI impI)
    show "state_uuids_drawn s \<le> state_uuids_drawn s1" using u by simp
  next
    fix h assume "state_cache s1 h \<noteq> state_cache s h"
    with c have "h = h0" by (auto split: if_splits)
    with h0 u show "\<exists>k. state_uuids_drawn s \<le> k \<and> k < state_uuids_drawn s1
        \<and> h = StateHandle (uuid4 env k)"
      by auto
  qed
qed

lemma state_submit_all_uuid:
  "state_submit_all env s cs = (r, s1) \<Longrightarrow>
     state_uuids_drawn s \<le> state_uuids_drawn s1
     \<and> (\<forall>h. state_cache s1 h \<noteq> state_cache s h \<longrightarrow>
          (\<exists>k. state_uuids_drawn s \<le> k \<and> k < state_uuids_drawn s1
             \<and> h = StateHandle (uuid4 env k)))"
proof (induction cs arbitrary: s r s1)
  case Nil
  then show ?case by simp
next
  case (Cons c cs)
  obtain r0 s0 where r0: "state_submit_circuit env s c = (r0, s0)"
    by (cases "state_submit_circuit env s c")
  note step = state_submit_circuit_uuid [OF r0]
  show ?case
  proof (cases r0)
    case (Inl e)
    with Cons.prems r0 have "s1 = s0" by simp
    with step show ?thesis by simp
  next
    case (Inr h0)
    obtain r2 s2 where r2: "state_submit_all env s0 cs = (r2, s2)"
      by (cases "state_submit_all env s0 cs")
    from Cons.prems r0 Inr r2 have s12: "s1 = s2" by (auto split: sum.splits)
    note rest = Cons.IH [OF r2]
    show ?thesis
    proof (intro conjI allI impI)
      show "state_uuids_drawn s \<le> state_uuids_drawn s1" using step rest s12 by simp
    next
      fix h assume ne: "state_cache s1 h \<noteq> state_cache s h"
      show "\<exists>k. state_uuids_drawn s \<le> k \<and> k < state_uuids_drawn s1
          \<and> h = StateHandle (uuid4 env k)"
      proof (cases "state_cache s2 h = state_cache s0 h")
        case True
        with ne s12 have "state_cache s0 h \<noteq> state_cache s h" by simp
        with step obtain k where "state_uuids_drawn s \<le> k" "k < state_uuids_drawn s0"
          "h = StateHandle (uuid4 env k)" by blast
        moreover from rest s12 have "state_uuids_drawn s0 \<le> state_uuids_drawn s1" by simp
        ultimately show ?thesis by (intro exI [of _ k]) simp
      next
        case False
        with rest obtain k where "state_uuids_drawn s0 \<le> k" "k < state_uuids_drawn s2"
          "h = StateHandle (uuid4 env k)" by blast
        moreover from step have "state_uuids_drawn s \<le> state_uuids_drawn s0" by simp
        ultimately show ?thesis using s12 by (intro exI [of _ k]) simp
      qed
    qed
  qed
qed

lemma state_submit_all_length:
  "state_submit_all env s cs = (Inr hs, s1) \<Longrightarrow> length hs = length cs"
proof (induction cs arbitrary: s hs s1)
  case Nil
  then show ?case by simp
next
  case (Cons c cs)
  from Cons.prems obtain h s0 hs0 where
    "state_submit_circuit env s c = (Inr h, s0)" "state_submit_all env s0 cs = (Inr hs0, s1)"
    "hs = h # hs0"
    by (auto split: prod.splits sum.splits)
  with Cons.IH show ?case by auto
qed

lemma state_submit_all_handles:
  "state_submit_all env s cs = (Inr hs, s1) \<Longrightarrow> i < length hs \<Longrightarrow>
     hs ! i = StateHandle (uuid4 env (state_uuids_drawn s + i))"
proof (induction cs arbitrary: s hs s1 i)
  case Nil
  then show ?case by simp
next
  case (Cons c cs)
  from Cons.prems obtain h0 s0 hs0 where
    a: "state_submit_circuit env s c = (Inr h0, s0)"
    and b: "state_submit_all env s0 cs = (Inr hs0, s1)"
    and c: "hs = h0 # hs0"
    by (auto split: prod.splits sum.splits)
  from state_submit_circuit_stored [OF a] have
    h0: "h0 = StateHandle (uuid4 env (state_uuids_drawn s))"
    and u: "state_uuids_drawn s0 = Suc (state_uuids_drawn s)"
    by simp_all
  show ?case
  proof (cases i)
    case 0
    with c h0 show ?thesis by simp
  next
    case (Suc j)
    with Cons.prems c have "j < length hs0" by simp
    from Cons.IH [OF b this] Suc c u show ?thesis by simp
  qed
qed

lemma state_submit_all_stored:
  "state_submit_all env s cs = (Inr hs, s1) \<Longrightarrow> i < length hs
    \<Longrightarrow> hs ! i \<notin> set (drop (Suc i) hs)
    \<Longrightarrow> state_cache s1 (hs ! i) = Some \<lparr>state_result = computed_result env (cs ! i)\<rparr>"
proof (induction cs arbitrary: s hs s1 i)
  case Nil
  then show ?case by simp
next
  case (Cons c cs)
  from Cons.prems obtain h0 s0 hs0 where
    a: "state_submit_circuit env s c = (Inr h0, s0)"
    and b: "state_submit_all env s0 cs = (Inr hs0, s1)"
    and c: "hs = h0 # hs0"
    by (auto split: prod.splits sum.splits)
  show ?case
  proof (cases i)
    case 0
    with Cons.prems c have "h0 \<notin> set hs0" by simp
    from state_submit_all_other [OF b this] have "state_cache s1 h0 = state_cache s0 h0" .
    with state_submit_circuit_stored [OF a] 0 c show ?thesis by simp
  next
    case (Suc j)
    with Cons.prems c have "j < length hs0" "hs0 ! j \<notin> set (drop (Suc j) hs0)" by auto
    from Cons.IH [OF b this] Suc c show ?thesis by simp
  qed
qed

lemma state_issued_for_snoc:
  "state_issued_for (tr @ [cr]) h c \<longleftrightarrow> state_issued_for tr h c \<or> is_state_issue_for h c cr"
  by (simp add: state_issued_for_def)

lemma state_inv_call:
  assumes inj: "inj (uuid4 env)" and inv: "state_run_inv env tr s"
    and c: "state_call env s c = (r, s1)"
  shows "state_run_inv env (tr @ [(c, r)]) s1"
proof (cases c)
  case (StateCircuitStatus h)
  with c inv show ?thesis
    by (auto simp: state_run_inv_def state_issued_for_snoc is_state_issue_for_def)
next
  case (StateProcessCircuits cs vc)
  with c obtain r0 where p: "state_process_circuits env s cs vc = (r0, s1)"
    and r: "r = StateHandles r0"
    by (auto split: prod.splits)
  from inv have known: "state_known_by_uuid env s"
    and stored: "\<And>h c. state_issued_for tr h c \<Longrightarrow>
        state_cache s h = Some \<lparr>state_result = computed_result env c\<rparr>"
    by (simp_all add: state_run_inv_def)
  let ?tr = "tr @ [(StateProcessCircuits cs vc, StateHandles r0)]"
  show ?thesis
  proof (cases "vc \<and> \<not> check_all_circuits env cs")
    case True
    with p have "r0 = Inl CircuitNotValidError" "s1 = s"
      by (simp_all add: state_process_circuits_def)
    with inv StateProcessCircuits r show ?thesis
      by (auto simp: state_run_inv_def state_issued_for_snoc is_state_issue_for_def)
  next
    case False
    with p have sub: "state_submit_all env s cs = (r0, s1)"
      by (simp add: state_process_circuits_def)
    note fr = state_submit_all_uuid [OF sub]
    have same: "state_cache s1 h = state_cache s h" if "state_cache s h \<noteq> None" for h
    proof (rule ccontr)
      assume "state_cache s1 h \<noteq> state_cache s h"
      with fr obtain k where k: "state_uuids_drawn s \<le> k" "h = StateHandle (uuid4 env k)"
        by blast
      from known that obtain k' where k': "k' < state_uuids_drawn s"
        "h = StateHandle (uuid4 env k')"
        by (auto simp: state_known_by_uuid_def)
      from k k' have "uuid4 env k = uuid4 env k'" by simp
      with inj have "k = k'" by (simp add: inj_eq)
      with k k' show False by simp
    qed
    have known1: "state_known_by_uuid env s1"
      unfolding state_known_by_uuid_def
    proof (intro allI impI)
      fix h assume h: "state_cache s1 h \<noteq> None"
      show "\<exists>k. k < state_uuids_drawn s1 \<and> h = StateHandle (uuid4 env k)"
      proof (cases "state_cache s1 h = state_cache s h")
        case True
        with h known obtain k where "k < state_uuids_drawn s" "h = StateHandle (uuid4 env k)"
          by (auto simp: state_known_by_uuid_def)
        with fr show ?thesis by (intro exI [of _ k]) simp
      next
        case False
        with fr show ?thesis by blast
      qed
    qed
    have old: "state_cache s1 h = Some \<lparr>state_result = computed_result env c'\<rparr>"
      if "state_issued_for tr h c'" for h c'
    proof -
      from stored [OF that] have e: "state_cache s h = Some \<lparr>state_result = computed_result env c'\<rparr>" .
      then have "state_cache s h \<noteq> None" by simp
      from same [OF this] e show ?thesis by simp
    qed
    have new: "state_cache s1 h = Some \<lparr>state_result = computed_result env c'\<rparr>"
      if n: "is_state_issue_for h c' (StateProcessCircuits cs vc, StateHandles r0)" for h c'
    proof -
      from n obtain hs where r0: "r0 = Inr hs" and z: "(c', h) \<in> set (zip cs hs)"
        by (auto simp: is_state_issue_for_def split: sum.splits)
      from sub r0 have sub': "state_submit_all env s cs = (Inr hs, s1)" by simp
      from z obtain i where i: "i < length cs" "i < length hs" "cs ! i = c'" "hs ! i = h"
        by (auto simp: set_zip)
      have dist: "distinct hs"
        unfolding distinct_conv_nth
      proof (intro allI impI)
        fix a b assume ab: "a < length hs" "b < length hs" "a \<noteq> b"
        from state_submit_all_handles [OF sub' ab(1)] state_submit_all_handles [OF sub' ab(2)]
        have "hs ! a = StateHandle (uuid4 env (state_uuids_drawn s + a))"
          "hs ! b = StateHandle (uuid4 env (state_uuids_drawn s + b))" by simp_all
        moreover from inj ab(3)
        have "uuid4 env (state_uuids_drawn s + a) \<noteq> uuid4 env (state_uuids_drawn s + b)"
          by (simp add: inj_eq)
        ultimately show "hs ! a \<noteq> hs ! b" by simp
      qed
      from dist i(2) have "hs ! i \<notin> set (drop (Suc i) hs)" by (rule distinct_nth_not_later)
      from state_submit_all_stored [OF sub' i(2) this] i show ?thesis by simp
    qed
    from known1 old new StateProcessCircuits r show ?thesis
      unfolding state_run_inv_def state_issued_for_snoc by blast
  qed
qed

lemma state_inv_run:
  "inj (uuid4 env) \<Longrightarrow> state_run env new_state_backend calls = (tr, s)
    \<Longrightarrow> state_run_inv env tr s"
proof (induction calls arbitrary: tr s rule: rev_induct)
  case Nil
  then show ?case
    by (auto simp: state_run_inv_def state_known_by_uuid_def new_state_backend_def
        state_issued_for_def)
next
  case (snoc c calls)
  obtain tr0 s0 where r0: "state_run env new_state_backend calls = (tr0, s0)"
    by (cases "state_run env new_state_backend calls")
  obtain r s1 where c: "state_call env s0 c = (r, s1)" by (cases "state_call env s0 c")
  from snoc.prems(2) r0 c have "tr = tr0 @ [(c, r)]" "s = s1"
    by (simp_all add: state_run_snoc)
  with state_inv_call [OF snoc.prems(1) snoc.IH [OF snoc.prems(1) r0] c] show ?case by simp
qed

section \<open>When the status is completed\<close>

text \<open>
  C5, as stated: on the shot-based backend the status of a handle is \<^verbatim>\<open>COMPLETED\<close> if
  and only if \<^verbatim>\<open>get_result\<close> returned a result for it before. After the single call
  that submits a circuit without measurements, the status of the handle that this call
  returned is \<^verbatim>\<open>COMPLETED\<close>, and the trace holds no call of \<^verbatim>\<open>get_result\<close>.
\<close>

theorem unmeasured_status_counterexample:
  "fst (run env0 new_backend [ProcessCircuits [circ_unmeasured] (Shots 2) True kw0])
     = [(ProcessCircuits [circ_unmeasured] (Shots 2) True kw0,
         Handles (Inr [ResultHandle 1000 ''null'']))]
   \<and> circuit_status
        (snd (run env0 new_backend [ProcessCircuits [circ_unmeasured] (Shots 2) True kw0]))
        (ResultHandle 1000 ''null'') = Inr COMPLETED
   \<and> \<not> retrieved
        (fst (run env0 new_backend [ProcessCircuits [circ_unmeasured] (Shots 2) True kw0]))
        (ResultHandle 1000 ''null'')"
  by (simp add: forest_defs input_defs Let_def retrieved_def is_retrieval_def
      split: prod.splits)

text \<open>
  C5, amended. Take any run of calls of \<^verbatim>\<open>process_circuits\<close>, \<^verbatim>\<open>get_result\<close> and
  \<^verbatim>\<open>circuit_status\<close> on a new shot-based backend, with pairwise different UUIDs. For
  every handle that a submission of the run returned, the status after the run is
  \<^verbatim>\<open>COMPLETED\<close> if and only if a call of \<^verbatim>\<open>get_result\<close> for the handle returned a
  result during the run, or the handle was returned for a circuit in which the
  submission counted no \<^verbatim>\<open>Measure\<close> operation. On the state-vector backend, the
  status of every handle that a submission of a run returned is \<^verbatim>\<open>COMPLETED\<close>.
\<close>

theorem status_completed_iff:
  assumes "inj (uuid4 env)" and "run env new_backend calls = (tr, s)" and "issued tr h"
    and "state_run env' new_state_backend calls' = (tr', s')" and "state_issued tr' h'"
  shows "(circuit_status s h = Inr COMPLETED
            \<longleftrightarrow> retrieved tr h \<or> issued_unmeasured env tr h)
    \<and> state_circuit_status s' h' = Inr COMPLETED"
proof -
  from inv_run [OF assms(1,2)] assms(3)
  have "circuit_status s h = Inr COMPLETED \<longleftrightarrow> retrieved tr h \<or> issued_unmeasured env tr h"
    by (simp add: run_inv_def circuit_status_has_result)
  moreover from state_run_issued_known [OF assms(4,5)]
  have "state_circuit_status s' h' = Inr COMPLETED"
    by (auto simp: state_circuit_status_def)
  ultimately show ?thesis
    by simp
qed

theorem status_completed_iff_witness:
  "inj (uuid4 env0)
   \<and> issued (fst (run env0 new_backend [batch0, GetResult (ResultHandle 1000 ''null'')]))
        (ResultHandle 1000 ''null'')
   \<and> issued (fst (run env0 new_backend [batch0])) (ResultHandle 1000 ''null'')
   \<and> state_issued (fst (state_run env0 new_state_backend
                          [StateProcessCircuits [circ_unmeasured] True]))
        (StateHandle 1000)
   \<and> retrieved (fst (run env0 new_backend [batch0, GetResult (ResultHandle 1000 ''null'')]))
        (ResultHandle 1000 ''null'')
   \<and> circuit_status (snd (run env0 new_backend [batch0, GetResult (ResultHandle 1000 ''null'')]))
        (ResultHandle 1000 ''null'') = Inr COMPLETED
   \<and> \<not> retrieved (fst (run env0 new_backend [batch0])) (ResultHandle 1000 ''null'')
   \<and> \<not> issued_unmeasured env0 (fst (run env0 new_backend [batch0])) (ResultHandle 1000 ''null'')
   \<and> circuit_status (snd (run env0 new_backend [batch0])) (ResultHandle 1000 ''null'')
       = Inl PyQuilJobStatusUnavailable
   \<and> state_circuit_status
        (snd (state_run env0 new_state_backend [StateProcessCircuits [circ_unmeasured] True]))
        (StateHandle 1000) = Inr COMPLETED"
proof -
  let ?h = "ResultHandle 1000 ''null''"
  let ?calls2 = "[batch0, GetResult ?h]" and ?calls1 = "[batch0]"
  let ?scalls = "[StateProcessCircuits [circ_unmeasured] True]"
  have inj: "inj (uuid4 env0)"
    by (simp add: env0_def inj_on_def)
  have r2: "run env0 new_backend ?calls2
      = (fst (run env0 new_backend ?calls2), snd (run env0 new_backend ?calls2))"
    and r1: "run env0 new_backend ?calls1
      = (fst (run env0 new_backend ?calls1), snd (run env0 new_backend ?calls1))"
    and rs: "state_run env0 new_state_backend ?scalls
      = (fst (state_run env0 new_state_backend ?scalls),
         snd (state_run env0 new_state_backend ?scalls))"
    by simp_all
  have i2: "issued (fst (run env0 new_backend ?calls2)) ?h"
    by (simp add: forest_defs input_defs Let_def issued_def is_issue_def split: prod.splits)
  have i1: "issued (fst (run env0 new_backend ?calls1)) ?h"
    by (simp add: forest_defs input_defs Let_def issued_def is_issue_def split: prod.splits)
  have si: "state_issued (fst (state_run env0 new_state_backend ?scalls)) (StateHandle 1000)"
    by (simp add: state_defs input_defs Let_def state_issued_def is_state_issue_def
        split: prod.splits)
  have t2: "retrieved (fst (run env0 new_backend ?calls2)) ?h"
    by (simp add: forest_defs input_defs Let_def retrieved_def is_retrieval_def
        split: prod.splits)
  have t1: "\<not> retrieved (fst (run env0 new_backend ?calls1)) ?h"
    by (simp add: forest_defs input_defs Let_def retrieved_def is_retrieval_def
        split: prod.splits)
  have u1: "\<not> issued_unmeasured env0 (fst (run env0 new_backend ?calls1)) ?h"
    by (simp add: forest_defs input_defs Let_def issued_unmeasured_def is_unmeasured_issue_def
        split: prod.splits)
  have st1: "circuit_status (snd (run env0 new_backend ?calls1)) ?h
      = Inl PyQuilJobStatusUnavailable"
    by (simp add: forest_defs input_defs Let_def split: prod.splits)
  from status_completed_iff [OF inj r2 i2 rs si] t2
  have "circuit_status (snd (run env0 new_backend ?calls2)) ?h = Inr COMPLETED"
    and "state_circuit_status (snd (state_run env0 new_state_backend ?scalls)) (StateHandle 1000)
      = Inr COMPLETED"
    by simp_all
  with inj i2 i1 si t2 t1 u1 st1 show ?thesis
    by simp
qed

section \<open>The columns of the outcome table\<close>

text \<open>
  C6, as stated: the table that \<^verbatim>\<open>get_result\<close> returns for a circuit that measures
  the set \<open>S\<close> of bits has exactly \<open>|S|\<close> columns. A circuit that measures both of its
  qubits into bit 1 measures one bit, and the rows of its table have two entries: the
  column 1 of the raw readout, twice.
\<close>

theorem repeated_bit_counterexample:
  "used_bits env0 kw0 circ_double = [c_1, c_1]
   \<and> card (set (used_bits env0 kw0 circ_double)) = 1
   \<and> fst (submit_circuit env0 kw0 new_backend circ_double 2) = Inr (ResultHandle 1000 ''null'')
   \<and> fst (get_result env0 (snd (submit_circuit env0 kw0 new_backend circ_double 2))
            (ResultHandle 1000 ''null''))
       = Inr \<lparr>shots = Some [[1, 1], [1, 1]], ppcirc = None, q_bits = None, state = None\<rparr>
   \<and> length [1, 1 :: int] \<noteq> card (set (used_bits env0 kw0 circ_double))"
  by (simp add: used_bits_def forest_defs input_defs Let_def)

text \<open>
  C6, amended. Let a circuit be submitted, and let \<^verbatim>\<open>get_result\<close> return a result while
  the cache entry of the handle is the one that the submission stored. When the
  submission counted no \<^verbatim>\<open>Measure\<close> operation, the result is the placeholder
  \<^verbatim>\<open>empty_result(circuit, n_shots)\<close>. Otherwise the stored \<^verbatim>\<open>bit_indices\<close> are the
  positions, in the circuit's list of bits and in ascending order, of the bits that the
  translation reports as measured, one position per reported bit; the rows of the table
  are the rows of the raw readout restricted to these columns, in this order, so that
  every row has as many entries as bits are reported; and for the default register
  \<^verbatim>\<open>c[0], ..., c[m-1]\<close> the columns are the sorted indices of the reported bits. When
  no bit is reported twice, so that the reported bits are a set \<open>S\<close>, every row has
  exactly \<open>|S|\<close> entries and the columns are the ascending positions of the bits of
  \<open>S\<close> without repetition.
\<close>

theorem result_columns_are_bit_indices:
  assumes sub: "submit_circuit env kw s circuit n = (Inr h, s1)"
    and later: "cache s' h = cache s1 h"
    and get: "get_result env s' h = (Inr res, s2)"
  shows "(n_gates_of_type (circuit_as_submitted env kw circuit) Measure = 0 \<longrightarrow>
      res = empty_result env (circuit_as_submitted env kw circuit) n)
    \<and> (n_gates_of_type (circuit_as_submitted env kw circuit) Measure \<noteq> 0 \<longrightarrow>
      (\<exists>raw e. cache s1 h = Some e \<and> qam_get_result_ro env (handle e) = Some raw
        \<and> bit_indices e = measured_columns env kw circuit
        \<and> shots res
            = Some (map (\<lambda>row. map (\<lambda>i. row ! i) (measured_columns env kw circuit)) (rows raw))
        \<and> (\<forall>row \<in> set (the (shots res)). length row = length (used_bits env kw circuit))
        \<and> length (measured_columns env kw circuit) = length (used_bits env kw circuit)
        \<and> sorted (measured_columns env kw circuit)
        \<and> set (measured_columns env kw circuit)
            = {i. \<exists>b \<in> set (used_bits env kw circuit).
                    list_index (bits (circuit_as_translated env kw circuit)) b = Some i}
        \<and> (\<forall>i \<in> set (measured_columns env kw circuit). i < n_cols raw)
        \<and> set (used_bits env kw circuit) \<subseteq> set (bits (circuit_as_translated env kw circuit))
        \<and> (\<forall>m. bits (circuit_as_translated env kw circuit) = default_bits m \<longrightarrow>
              measured_columns env kw circuit
                = sort (map (\<lambda>b. index b ! 0) (used_bits env kw circuit)))
        \<and> (distinct (used_bits env kw circuit) \<longrightarrow>
              distinct (measured_columns env kw circuit)
            \<and> length (measured_columns env kw circuit) = card (set (used_bits env kw circuit))
            \<and> (\<forall>row \<in> set (the (shots res)).
                  length row = card (set (used_bits env kw circuit)))
            \<and> (\<forall>m. bits (circuit_as_translated env kw circuit) = default_bits m \<longrightarrow>
                  measured_columns env kw circuit
                    = sorted_list_of_set
                        ((\<lambda>b. index b ! 0) ` set (used_bits env kw circuit))))))"
proof (intro conjI impI)
  assume m0: "n_gates_of_type (circuit_as_submitted env kw circuit) Measure = 0"
  from submit_circuit_Inr [OF sub] m0 obtain e where
    "cache s1 h = Some e"
    "result e = Some (empty_result env (circuit_as_submitted env kw circuit) n)"
    by auto
  with later have "get_result env s' h
      = (Inr (empty_result env (circuit_as_submitted env kw circuit) n), s')"
    by (simp add: get_result_cached)
  with get show "res = empty_result env (circuit_as_submitted env kw circuit) n"
    by simp
next
  assume meas: "n_gates_of_type (circuit_as_submitted env kw circuit) Measure \<noteq> 0"
  let ?c0 = "circuit_as_translated env kw circuit"
  let ?used = "used_bits env kw circuit"
  let ?cols = "measured_columns env kw circuit"
  from submit_circuit_Inr [OF sub] meas obtain idx e where
    idx: "those (map (list_index (bits ?c0)) ?used) = Some idx"
    and e: "cache s1 h = Some e" "bit_indices e = sort idx" "result e = None"
    by (auto simp: used_bits_def)
  from positions_facts [OF idx] have
    l: "length idx = length ?used"
    and st: "set idx = {i. \<exists>b\<in>set ?used. list_index (bits ?c0) b = Some i}"
    and subs: "set ?used \<subseteq> set (bits ?c0)"
    by auto
  from map_filter_those [OF idx] have mc: "?cols = sort idx"
    by (simp add: measured_columns_def)
  from later e have "cache s' h = Some e" by simp
  from get_result_fetch [OF this e(3) get] obtain raw where
    raw: "qam_get_result_ro env (handle e) = Some raw"
    "list_all (\<lambda>i. i < n_cols raw) (bit_indices e)"
    "shots res = Some (map (\<lambda>row. map (\<lambda>i. row ! i) (bit_indices e)) (rows raw))"
    by auto
  have rowlen: "\<forall>row \<in> set (the (shots res)). length row = length ?used"
    using raw e l by auto
  have defreg: "?cols = sort (map (\<lambda>b. index b ! 0) ?used)"
    if b: "bits ?c0 = default_bits m" for m
  proof -
    from idx b have "those (map (list_index (default_bits m)) ?used) = Some idx"
      by simp
    then have "idx = map (\<lambda>b. index b ! 0) ?used"
      by (rule default_register_positions)
    with mc show ?thesis by simp
  qed
  have dpart: "distinct ?cols \<and> length ?cols = card (set ?used)
      \<and> (\<forall>row \<in> set (the (shots res)). length row = card (set ?used))
      \<and> (\<forall>m. bits ?c0 = default_bits m \<longrightarrow>
            ?cols = sorted_list_of_set ((\<lambda>b. index b ! 0) ` set ?used))"
    if dist: "distinct ?used"
  proof -
    from positions_distinct [OF idx dist] have d: "distinct idx" .
    from dist l have card: "length idx = card (set ?used)"
      by (simp add: distinct_card)
    have c: "set ?cols = {i. \<exists>b \<in> set ?used. list_index (bits ?c0) b = Some i}"
      using mc st by simp
    have o: "sorted ?cols" "distinct ?cols"
      using mc d by simp_all
    have "?cols = sorted_list_of_set ((\<lambda>b. index b ! 0) ` set ?used)"
      if b: "bits ?c0 = default_bits m" for m
      using b subs c o by (rule default_register_columns)
    with o mc card rowlen l show ?thesis
      by simp
  qed
  show "\<exists>raw e. cache s1 h = Some e \<and> qam_get_result_ro env (handle e) = Some raw
        \<and> bit_indices e = ?cols
        \<and> shots res = Some (map (\<lambda>row. map (\<lambda>i. row ! i) ?cols) (rows raw))
        \<and> (\<forall>row \<in> set (the (shots res)). length row = length ?used)
        \<and> length ?cols = length ?used
        \<and> sorted ?cols
        \<and> set ?cols = {i. \<exists>b \<in> set ?used. list_index (bits ?c0) b = Some i}
        \<and> (\<forall>i \<in> set ?cols. i < n_cols raw)
        \<and> set ?used \<subseteq> set (bits ?c0)
        \<and> (\<forall>m. bits ?c0 = default_bits m \<longrightarrow>
              ?cols = sort (map (\<lambda>b. index b ! 0) ?used))
        \<and> (distinct ?used \<longrightarrow>
              distinct ?cols
            \<and> length ?cols = card (set ?used)
            \<and> (\<forall>row \<in> set (the (shots res)). length row = card (set ?used))
            \<and> (\<forall>m. bits ?c0 = default_bits m \<longrightarrow>
                  ?cols = sorted_list_of_set ((\<lambda>b. index b ! 0) ` set ?used)))"
  proof (intro exI conjI)
    show "cache s1 h = Some e" by (rule e)
    show "qam_get_result_ro env (handle e) = Some raw" by (rule raw)
    show "bit_indices e = ?cols" using e mc by simp
    show "shots res = Some (map (\<lambda>row. map (\<lambda>i. row ! i) ?cols) (rows raw))"
      using raw e mc by simp
    show "\<forall>row \<in> set (the (shots res)). length row = length ?used" by (rule rowlen)
    show "length ?cols = length ?used" using mc l by simp
    show "sorted ?cols" using mc by simp
    show "set ?cols = {i. \<exists>b \<in> set ?used. list_index (bits ?c0) b = Some i}"
      using mc st by simp
    show "\<forall>i \<in> set ?cols. i < n_cols raw"
      using raw e mc by (simp add: list_all_iff)
    show "set ?used \<subseteq> set (bits ?c0)" by (rule subs)
    show "\<forall>m. bits ?c0 = default_bits m \<longrightarrow> ?cols = sort (map (\<lambda>b. index b ! 0) ?used)"
      using defreg by blast
    show "distinct ?used \<longrightarrow>
              distinct ?cols
            \<and> length ?cols = card (set ?used)
            \<and> (\<forall>row \<in> set (the (shots res)). length row = card (set ?used))
            \<and> (\<forall>m. bits ?c0 = default_bits m \<longrightarrow>
                  ?cols = sorted_list_of_set ((\<lambda>b. index b ! 0) ` set ?used))"
      using dpart by blast
  qed
qed

theorem result_columns_are_bit_indices_witness:
  "fst (submit_circuit env0 kw0 new_backend circ_measured 2) = Inr (ResultHandle 1000 ''null'')
   \<and> n_gates_of_type (circuit_as_submitted env0 kw0 circ_measured) Measure = 2
   \<and> used_bits env0 kw0 circ_measured = [c_2, c_0]
   \<and> distinct (used_bits env0 kw0 circ_measured)
   \<and> measured_columns env0 kw0 circ_measured = [0, 2]
   \<and> qam_get_result_ro env0 0 = Some \<lparr>n_cols = 3, rows = [[0, 1, 0], [1, 1, 0]]\<rparr>
   \<and> fst (get_result env0 (snd (submit_circuit env0 kw0 new_backend circ_measured 2))
            (ResultHandle 1000 ''null''))
       = Inr \<lparr>shots = Some [[0, 0], [1, 0]], ppcirc = None, q_bits = None, state = None\<rparr>
   \<and> card (set (used_bits env0 kw0 circ_measured)) = 2
   \<and> length (measured_columns env0 kw0 circ_measured) = 2
   \<and> n_gates_of_type (circuit_as_submitted env0 kw0 circ_unmeasured) Measure = 0
   \<and> fst (get_result env0 (snd (submit_circuit env0 kw0 new_backend circ_unmeasured 2))
            (ResultHandle 1000 ''null''))
       = Inr (empty_result env0 (circuit_as_submitted env0 kw0 circ_unmeasured) 2)"
proof -
  let ?h = "ResultHandle 1000 ''null''"
  let ?sub = "submit_circuit env0 kw0 new_backend circ_measured 2"
  let ?res = "\<lparr>shots = Some [[0, 0], [1, 0]], ppcirc = None, q_bits = None, state = None\<rparr>"
  let ?subu = "submit_circuit env0 kw0 new_backend circ_unmeasured 2"
  let ?resu = "empty_result env0 (circuit_as_submitted env0 kw0 circ_unmeasured) 2"
  have f: "fst ?sub = Inr ?h"
    by (simp add: forest_defs input_defs Let_def)
  then have sub: "?sub = (Inr ?h, snd ?sub)"
    by (simp add: prod_eq_iff)
  have m: "n_gates_of_type (circuit_as_submitted env0 kw0 circ_measured) Measure = 2"
    by (simp add: forest_defs input_defs)
  then have m0: "n_gates_of_type (circuit_as_submitted env0 kw0 circ_measured) Measure \<noteq> 0"
    by simp
  have u: "used_bits env0 kw0 circ_measured = [c_2, c_0]"
    by (simp add: used_bits_def forest_defs input_defs)
  then have d: "distinct (used_bits env0 kw0 circ_measured)"
    by (simp add: c_2_def c_0_def)
  have g: "fst (get_result env0 (snd ?sub) ?h) = Inr ?res"
    by (simp add: forest_defs input_defs Let_def)
  then have get: "get_result env0 (snd ?sub) ?h = (Inr ?res, snd (get_result env0 (snd ?sub) ?h))"
    by (simp add: prod_eq_iff)
  have q: "qam_get_result_ro env0 0 = Some \<lparr>n_cols = 3, rows = [[0, 1, 0], [1, 1, 0]]\<rparr>"
    by (simp add: env0_def)
  have k: "card (set (used_bits env0 kw0 circ_measured)) = 2"
    using u by (simp add: c_2_def c_0_def)
  from result_columns_are_bit_indices [OF sub refl get] m0 d k
  have len: "length (measured_columns env0 kw0 circ_measured) = 2"
    by auto
  have mc: "measured_columns env0 kw0 circ_measured = [0, 2]"
    by (simp add: measured_columns_def used_bits_def forest_defs input_defs
        List.map_filter_simps)
  have fu: "fst ?subu = Inr ?h"
    by (simp add: forest_defs input_defs Let_def)
  then have subu: "?subu = (Inr ?h, snd ?subu)"
    by (simp add: prod_eq_iff)
  have mu: "n_gates_of_type (circuit_as_submitted env0 kw0 circ_unmeasured) Measure = 0"
    by (simp add: forest_defs input_defs)
  have gu: "fst (get_result env0 (snd ?subu) ?h) = Inr ?resu"
    by (simp add: forest_defs input_defs Let_def)
  then have getu: "get_result env0 (snd ?subu) ?h
      = (Inr ?resu, snd (get_result env0 (snd ?subu) ?h))"
    by (simp add: prod_eq_iff)
  from result_columns_are_bit_indices [OF subu refl getu] mu
  have "?resu = empty_result env0 (circuit_as_submitted env0 kw0 circ_unmeasured) 2"
    by simp
  with f m u d mc q g k len mu gu show ?thesis
    by (intro conjI)
qed

section \<open>Optimisation levels out of range\<close>

text \<open>
  C7. For an optimisation level outside 0, 1 and 2, \<^verbatim>\<open>default_compilation_pass\<close> of
  either backend raises at its first statement, the \<^verbatim>\<open>assert\<close>, and returns no pass
  sequence.
\<close>

theorem invalid_level_fails_fast:
  fixes info :: "('a, 'n, 'e) BackendInfo"
  assumes "optimisation_level \<notin> {0, 1, 2}"
  shows "default_compilation_pass info optimisation_level = Inl AssertionError
    \<and> state_default_compilation_pass optimisation_level
        = (Inl AssertionError :: StateHandle error + ('a, 'n, 'e) BasePass)
    \<and> passes_of (default_compilation_pass info optimisation_level) = []
    \<and> passes_of (state_default_compilation_pass optimisation_level
         :: StateHandle error + ('a, 'n, 'e) BasePass) = []"
proof -
  from assms have "\<not> (0 \<le> optimisation_level \<and> optimisation_level < 3)"
    by auto
  then show ?thesis
    by (simp add: default_compilation_pass_def state_default_compilation_pass_def passes_of_def)
qed

theorem invalid_level_fails_fast_witness:
  "(3::int) \<notin> {0, 1, 2} \<and> (-1::int) \<notin> {0, 1, 2}
   \<and> default_compilation_pass info0 3 = Inl AssertionError
   \<and> state_default_compilation_pass 3
       = (Inl AssertionError :: StateHandle error
            + ((nat \<times> nat) list, (nat \<times> rat) list, ((nat \<times> nat) \<times> rat) list) BasePass)
   \<and> default_compilation_pass info0 (-1) = Inl AssertionError
   \<and> state_default_compilation_pass (-1)
       = (Inl AssertionError :: StateHandle error
            + ((nat \<times> nat) list, (nat \<times> rat) list, ((nat \<times> nat) \<times> rat) list) BasePass)"
proof -
  have h3: "(3::int) \<notin> {0, 1, 2}" and hm: "(-1::int) \<notin> {0, 1, 2}" by simp_all
  show ?thesis
    using h3 hm invalid_level_fails_fast [OF h3, of info0]
      invalid_level_fails_fast [OF hm, of info0]
    by simp
qed

section \<open>The global phase in the state vector\<close>

text \<open>
  C8. When \<^verbatim>\<open>ForestStateBackend.process_circuits\<close> returns its handles, pairwise
  different, then for every circuit of the batch whose global phase is a number \<open>x\<close>
  the result cached under the circuit's handle holds the amplitudes of the simulator,
  each multiplied by \<open>exp (i * pi * x)\<close>. Floating-point numbers are read as the real
  and complex numbers they stand for.
\<close>

theorem state_amplitudes_carry_phase:
  assumes "state_process_circuits env s circuits valid_check = (Inr hs, s1)"
    and "i < length hs" and "distinct hs" and "phase (circuits ! i) = Numeric x"
  shows "\<exists>e. state_cache s1 (hs ! i) = Some e
    \<and> state (state_result e)
        = Some (map (\<lambda>a. a * exp (\<i> * complex_of_real pi * complex_of_real x))
             (wavefunction_amplitudes env (state_program env (circuits ! i))))"
proof -
  from assms(1) have sub: "state_submit_all env s circuits = (Inr hs, s1)"
    by (auto simp: state_process_circuits_def split: if_splits)
  from assms(3,2) have "hs ! i \<notin> set (drop (Suc i) hs)" by (rule distinct_nth_not_later)
  from state_submit_all_entry [OF sub assms(2) this] assms(4) show ?thesis
    by (auto simp: adjust_phase_def mult_ac)
qed

theorem state_amplitudes_carry_phase_witness:
  "fst (state_process_circuits env0 new_state_backend [circ_unmeasured] True)
     = Inr [StateHandle 1000]
   \<and> phase circ_unmeasured = Numeric 1
   \<and> wavefunction_amplitudes env0 (state_program env0 circ_unmeasured) = [1, 0]
   \<and> map_option (\<lambda>e. state (state_result e))
        (state_cache (snd (state_process_circuits env0 new_state_backend [circ_unmeasured] True))
           (StateHandle 1000))
       = Some (Some [- 1, 0])"
proof -
  let ?p = "state_process_circuits env0 new_state_backend [circ_unmeasured] True"
  have f: "fst ?p = Inr [StateHandle 1000]"
    by (simp add: state_defs input_defs Let_def split: prod.splits)
  then have p: "?p = (Inr [StateHandle 1000], snd ?p)"
    by (simp add: prod_eq_iff)
  have ph: "phase ([circ_unmeasured] ! 0) = Numeric 1"
    by (simp add: circ_unmeasured_def)
  have w: "wavefunction_amplitudes env0 (state_program env0 circ_unmeasured) = [1, 0]"
    by (simp add: env0_def)
  from state_amplitudes_carry_phase [OF p _ _ ph] w f ph show ?thesis
    by auto
qed

section \<open>Pauli observables outside the default register\<close>

lemma default_q_index_eq:
  "default_q_index q = (if in_default_register q then Inr (index q ! 0)
                        else Inl (ValueError ''Non-default qubit register''))"
  by (auto simp: default_q_index_def in_default_register_def)

lemma gen_PauliTerm_from_eq:
  "gen_PauliTerm_from t term =
     (if list_all (\<lambda>(q, p). in_default_register q) term
      then Inr (foldl Times t (pauli_factors term))
      else Inl (ValueError ''Non-default qubit register''))"
  by (induction t "term" rule: gen_PauliTerm_from.induct)
    (simp_all add: default_q_index_eq pauli_factors_def)

lemma gen_PauliTerm_eq:
  "gen_PauliTerm term coeff =
     (if list_all (\<lambda>(q, p). in_default_register q) term
      then Inr (product_term coeff term)
      else Inl (ValueError ''Non-default qubit register''))"
  by (simp add: gen_PauliTerm_def gen_PauliTerm_from_eq product_term_def)

lemma gen_PauliTerms_eq:
  "gen_PauliTerms operator =
     (if list_all (\<lambda>(term, coeff). list_all (\<lambda>(q, p). in_default_register q) term) operator
      then Inr (map (\<lambda>(term, coeff). product_term coeff term) operator)
      else Inl (ValueError ''Non-default qubit register''))"
  by (induction operator rule: gen_PauliTerms.induct) (simp_all add: gen_PauliTerm_eq)

text \<open>
  C9. \<^verbatim>\<open>get_pauli_expectation_value\<close> raises \<^verbatim>\<open>ValueError("Non-default qubit
  register")\<close> when some qubit of the Pauli string is not in the register \<^verbatim>\<open>q\<close> with
  a single index; otherwise it asks the simulator for the expectation of the product
  of one factor \<^verbatim>\<open>PauliTerm(p.name, q.index[0])\<close> per item of the string.
  \<^verbatim>\<open>get_operator_expectation_value\<close> raises the same error when some qubit of some
  term of the operator is outside that register, and otherwise asks for the expectation
  of the sum of these products, each with its coefficient.
\<close>

theorem expectation_register_check:
  "get_pauli_expectation_value env state_circuit pauli =
     (if list_ex (\<lambda>(q, p). \<not> in_default_register q) pauli
      then Inl (ValueError ''Non-default qubit register'')
      else Inr (expectation env (fst (tk_to_pyquil env state_circuit))
                  (TermList [product_term 1 pauli])))
   \<and> get_operator_expectation_value env state_circuit operator =
     (if list_ex (\<lambda>(term, coeff). list_ex (\<lambda>(q, p). \<not> in_default_register q) term) operator
      then Inl (ValueError ''Non-default qubit register'')
      else Inr (expectation env (fst (tk_to_pyquil env state_circuit))
                  (PauliSum (map (\<lambda>(term, coeff). product_term coeff term) operator))))"
  by (auto simp: get_pauli_expectation_value_def get_operator_expectation_value_def
      gen_PauliTerm_eq gen_PauliTerms_eq list_ex_iff list_all_iff Let_def)

theorem expectation_register_check_witness:
  "get_pauli_expectation_value env0 circ_unmeasured pauli_bad
     = Inl (ValueError ''Non-default qubit register'')
   \<and> get_pauli_expectation_value env0 circ_unmeasured pauli_ok = Inr 1
   \<and> product_term 1 pauli_ok
       = Times (Times (Scale ID 1) (PauliTerm ''X'' 0)) (PauliTerm ''Z'' 1)
   \<and> get_operator_expectation_value env0 circ_unmeasured [(pauli_ok, 2), (pauli_bad, 3)]
       = Inl (ValueError ''Non-default qubit register'')
   \<and> get_operator_expectation_value env0 circ_unmeasured [(pauli_ok, 2), (pauli_ok, 3)]
       = Inr 2"
  using expectation_register_check [of env0 circ_unmeasured pauli_bad "[(pauli_ok, 2), (pauli_bad, 3)]"]
    expectation_register_check [of env0 circ_unmeasured pauli_ok "[(pauli_ok, 2), (pauli_ok, 3)]"]
  by (simp add: pauli_ok_def pauli_bad_def in_default_register_def product_term_def
      pauli_factors_def q_0_def q_1_def a_0_def env0_def)

section \<open>Status on the state-vector backend\<close>

text \<open>
  C10. Whenever the loop body of \<^verbatim>\<open>ForestStateBackend.process_circuits\<close> returns a
  handle for a circuit, the cache holds under that handle the result computed for the
  circuit: the permuted qubits and the simulator's amplitudes adjusted for the global
  phase. Take any run of calls of \<^verbatim>\<open>process_circuits\<close> and \<^verbatim>\<open>circuit_status\<close> on a
  new state-vector backend. After the run the status of every handle that a submission
  of the run returned is \<^verbatim>\<open>COMPLETED\<close>, and with pairwise different UUIDs the cache
  still holds under it the result computed for the circuit it was returned for. For
  any handle at all the status is \<^verbatim>\<open>COMPLETED\<close> when the cache knows the handle and the
  error \<^verbatim>\<open>CircuitNotRunError\<close> when it does not: it is never \<^verbatim>\<open>SUBMITTED\<close> or
  \<^verbatim>\<open>RUNNING\<close>, and never the error \<^verbatim>\<open>PyQuilJobStatusUnavailable\<close>.
\<close>

theorem state_status_always_completed:
  assumes "state_run env new_state_backend calls = (tr, s)"
  shows "(state_issued tr h \<longrightarrow> state_circuit_status s h = Inr COMPLETED)
    \<and> (state_circuit_status s h = Inr COMPLETED \<longleftrightarrow> state_cache s h \<noteq> None)
    \<and> (state_circuit_status s h = Inl (CircuitNotRunError h) \<longleftrightarrow> state_cache s h = None)
    \<and> (state_circuit_status s h = Inr COMPLETED
        \<or> state_circuit_status s h = Inl (CircuitNotRunError h))
    \<and> state_circuit_status s h \<noteq> Inr SUBMITTED
    \<and> state_circuit_status s h \<noteq> Inr RUNNING
    \<and> state_circuit_status s h \<noteq> Inl PyQuilJobStatusUnavailable
    \<and> (state_submit_circuit env s0 circuit0 = (Inr h0, s1) \<longrightarrow>
          state_cache s1 h0 = Some \<lparr>state_result = computed_result env circuit0\<rparr>
        \<and> state_circuit_status s1 h0 = Inr COMPLETED)
    \<and> (inj (uuid4 env) \<and> state_issued_for tr h circuit \<longrightarrow>
          state_cache s h = Some \<lparr>state_result = computed_result env circuit\<rparr>)"
proof -
  have status: "(state_issued tr h \<longrightarrow> state_circuit_status s h = Inr COMPLETED)
    \<and> (state_circuit_status s h = Inr COMPLETED \<longleftrightarrow> state_cache s h \<noteq> None)
    \<and> (state_circuit_status s h = Inl (CircuitNotRunError h) \<longleftrightarrow> state_cache s h = None)
    \<and> (state_circuit_status s h = Inr COMPLETED
        \<or> state_circuit_status s h = Inl (CircuitNotRunError h))
    \<and> state_circuit_status s h \<noteq> Inr SUBMITTED
    \<and> state_circuit_status s h \<noteq> Inr RUNNING
    \<and> state_circuit_status s h \<noteq> Inl PyQuilJobStatusUnavailable"
    using state_run_issued_known [OF assms, of h]
    by (auto simp: state_circuit_status_def split: option.splits)
  have body: "state_cache s1 h0 = Some \<lparr>state_result = computed_result env circuit0\<rparr>
      \<and> state_circuit_status s1 h0 = Inr COMPLETED"
    if "state_submit_circuit env s0 circuit0 = (Inr h0, s1)"
    using state_submit_circuit_stored [OF that]
    by (simp add: state_circuit_status_def)
  have kept: "state_cache s h = Some \<lparr>state_result = computed_result env circuit\<rparr>"
    if "inj (uuid4 env) \<and> state_issued_for tr h circuit"
    using state_inv_run [OF _ assms] that
    by (simp add: state_run_inv_def)
  from status body kept show ?thesis
    by blast
qed

theorem state_status_always_completed_witness:
  "inj (uuid4 env0)
   \<and> fst (state_run env0 new_state_backend
          [StateProcessCircuits [circ_unmeasured, circ_unmeasured] True])
     = [(StateProcessCircuits [circ_unmeasured, circ_unmeasured] True,
         StateHandles (Inr [StateHandle 1000, StateHandle 1001]))]
   \<and> state_issued (fst (state_run env0 new_state_backend
                          [StateProcessCircuits [circ_unmeasured, circ_unmeasured] True]))
        (StateHandle 1001)
   \<and> state_issued_for (fst (state_run env0 new_state_backend
                          [StateProcessCircuits [circ_unmeasured, circ_unmeasured] True]))
        (StateHandle 1001) circ_unmeasured
   \<and> state_circuit_status
        (snd (state_run env0 new_state_backend
                [StateProcessCircuits [circ_unmeasured, circ_unmeasured] True]))
        (StateHandle 1001) = Inr COMPLETED
   \<and> state_circuit_status
        (snd (state_run env0 new_state_backend
                [StateProcessCircuits [circ_unmeasured, circ_unmeasured] True]))
        (StateHandle 5) = Inl (CircuitNotRunError (StateHandle 5))
   \<and> computed_result env0 circ_unmeasured
       = \<lparr>shots = None, ppcirc = None, q_bits = Some [q_0], state = Some [- 1, 0]\<rparr>
   \<and> state_cache
        (snd (state_run env0 new_state_backend
                [StateProcessCircuits [circ_unmeasured, circ_unmeasured] True]))
        (StateHandle 1001)
       = Some \<lparr>state_result =
           \<lparr>shots = None, ppcirc = None, q_bits = Some [q_0], state = Some [- 1, 0]\<rparr>\<rparr>
   \<and> fst (state_submit_circuit env0 new_state_backend circ_unmeasured) = Inr (StateHandle 1000)
   \<and> state_cache (snd (state_submit_circuit env0 new_state_backend circ_unmeasured))
        (StateHandle 1000)
       = Some \<lparr>state_result =
           \<lparr>shots = None, ppcirc = None, q_bits = Some [q_0], state = Some [- 1, 0]\<rparr>\<rparr>"
proof -
  let ?calls = "[StateProcessCircuits [circ_unmeasured, circ_unmeasured] True]"
  let ?r = "state_run env0 new_state_backend ?calls"
  let ?b = "state_submit_circuit env0 new_state_backend circ_unmeasured"
  let ?res = "\<lparr>shots = None, ppcirc = None, q_bits = Some [q_0], state = Some [- 1, 0]\<rparr>"
  have inj: "inj (uuid4 env0)"
    by (simp add: env0_def inj_on_def)
  have f: "fst ?r = [(StateProcessCircuits [circ_unmeasured, circ_unmeasured] True,
         StateHandles (Inr [StateHandle 1000, StateHandle 1001]))]"
    by (simp add: state_defs input_defs Let_def split: prod.splits)
  have r: "?r = (fst ?r, snd ?r)"
    by simp
  have i: "state_issued (fst ?r) (StateHandle 1001)"
    unfolding f by (simp add: state_issued_def is_state_issue_def)
  have ifor: "state_issued_for (fst ?r) (StateHandle 1001) circ_unmeasured"
    unfolding f by (simp add: state_issued_for_def is_state_issue_for_def)
  have n: "state_cache (snd ?r) (StateHandle 5) = None"
    by (simp add: state_defs input_defs Let_def split: prod.splits)
  have cr: "computed_result env0 circ_unmeasured = ?res"
    by (simp add: computed_result_def state_defs input_defs List.map_filter_simps)
  have fb: "fst ?b = Inr (StateHandle 1000)"
    by (simp add: state_defs input_defs Let_def)
  then have b: "?b = (Inr (StateHandle 1000), snd ?b)"
    by (simp add: prod_eq_iff)
  note t1 = state_status_always_completed [OF r, of "StateHandle 1001" new_state_backend
      circ_unmeasured "StateHandle 1000" "snd ?b" circ_unmeasured]
  note t5 = state_status_always_completed [OF r, of "StateHandle 5" new_state_backend
      circ_unmeasured "StateHandle 1000" "snd ?b" circ_unmeasured]
  from t1 i have st: "state_circuit_status (snd ?r) (StateHandle 1001) = Inr COMPLETED"
    by blast
  from t5 n have st5: "state_circuit_status (snd ?r) (StateHandle 5)
      = Inl (CircuitNotRunError (StateHandle 5))"
    by blast
  from t1 inj ifor have "state_cache (snd ?r) (StateHandle 1001)
      = Some \<lparr>state_result = computed_result env0 circ_unmeasured\<rparr>"
    by blast
  then have k: "state_cache (snd ?r) (StateHandle 1001) = Some \<lparr>state_result = ?res\<rparr>"
    by (simp only: cr)
  from t1 b have "state_cache (snd ?b) (StateHandle 1000)
      = Some \<lparr>state_result = computed_result env0 circ_unmeasured\<rparr>"
    by blast
  then have kb: "state_cache (snd ?b) (StateHandle 1000) = Some \<lparr>state_result = ?res\<rparr>"
    by (simp only: cr)
  from inj f i ifor st st5 cr k fb kb show ?thesis
    by (intro conjI)
qed

end
